theory Spec2Isabelle
  imports Main "HOL-Library.Word" "HOL-Library.List_Lexorder" "HOL-Library.Multiset"
begin

section \<open>JavaScript strings, numbers and values\<close>

text \<open>
  A JavaScript string is a sequence of 16-bit code units. Template text written in
  the emitter is ASCII; \<open>js\<close> turns an ASCII literal into such a sequence.
\<close>

type_synonym jschar = "16 word"
type_synonym jsstring = "jschar list"

definition js :: "string \<Rightarrow> jsstring" where
  "js = map of_char"

text \<open>String concatenation with a non-negative integer (\<open>'...' + pos\<close>): decimal digits.\<close>

fun dec :: "nat \<Rightarrow> jsstring" where
  "dec n = (if n < 10 then [of_nat (48 + n)] else dec (n div 10) @ [of_nat (48 + n mod 10)])"

declare dec.simps [simp del]

text \<open>\<open>Number.prototype.toString(16)\<close> followed by \<open>toUpperCase()\<close>.\<close>

definition hexDigit :: "nat \<Rightarrow> jschar" where
  "hexDigit d = (if d < 10 then of_nat (48 + d) else of_nat (55 + d))"

fun hexUpper :: "nat \<Rightarrow> jsstring" where
  "hexUpper n = (if n < 16 then [hexDigit n] else hexUpper (n div 16) @ [hexDigit (n mod 16)])"

declare hexUpper.simps [simp del]

text \<open>
  The values a generated parser handles: \<open>null\<close>, the matched strings, the arrays
  built by sequences and repetitions, and whatever user code returns.
\<close>

datatype jsvalue =
    JNull
  | JUndefined
  | JBool bool
  | JNum int
  | JStr jsstring
  | JArr "jsvalue list"

text \<open>The truth value of \<open>v ? a : b\<close>.\<close>

fun truthy :: "jsvalue \<Rightarrow> bool" where
  "truthy JNull = False"
| "truthy JUndefined = False"
| "truthy (JBool b) = b"
| "truthy (JNum n) = (n \<noteq> 0)"
| "truthy (JStr s) = (s \<noteq> [])"
| "truthy (JArr vs) = True"

text \<open>\<open>input.charAt(i)\<close>: the empty string out of range.\<close>

definition charAt :: "jsstring \<Rightarrow> nat \<Rightarrow> jsstring" where
  "charAt input i = (if i < length input then [input ! i] else [])"

text \<open>\<open>input.substr(start, len)\<close> and \<open>input.substr(start)\<close> for non-negative arguments.\<close>

definition substr :: "jsstring \<Rightarrow> nat \<Rightarrow> nat \<Rightarrow> jsstring" where
  "substr input start len = take len (drop start input)"

definition substr_from :: "jsstring \<Rightarrow> nat \<Rightarrow> jsstring" where
  "substr_from input start = drop start input"

text \<open>\<open>s.replace(/c/g, r)\<close> for a one-character pattern, and with a replacement function.\<close>

definition replace_char :: "jschar \<Rightarrow> jsstring \<Rightarrow> jsstring \<Rightarrow> jsstring" where
  "replace_char c r s = concat (map (\<lambda>x. if x = c then r else [x]) s)"

definition replace_where :: "(jschar \<Rightarrow> bool) \<Rightarrow> (jschar \<Rightarrow> jsstring) \<Rightarrow> jsstring \<Rightarrow> jsstring" where
  "replace_where p f s = concat (map (\<lambda>x. if p x then f x else [x]) s)"

text \<open>\<open>parts.join(sep)\<close>.\<close>

fun join :: "jsstring \<Rightarrow> jsstring list \<Rightarrow> jsstring" where
  "join sep [] = []"
| "join sep [x] = x"
| "join sep (x # y # ys) = x @ sep @ join sep (y # ys)"

section \<open>Helpers inlined into every generated parser\<close>

text \<open>
  \<open>padLeft\<close>, \<open>escape\<close> and \<open>quote\<close> as the \<open>grammar\<close> template emits them. The
  emitter's own \<open>quote\<close> is the same function: the template is kept in sync with it.
\<close>

definition padLeft :: "jsstring \<Rightarrow> jsstring \<Rightarrow> nat \<Rightarrow> jsstring" where
  "padLeft input padding len = concat (replicate (len - length input) padding) @ input"

definition escape :: "jschar \<Rightarrow> jsstring" where
  \<open>escape ch =
     (let charCode = unat ch in
      if charCode \<le> 0xFF
      then [0x5C] @ js ''x'' @ padLeft (hexUpper charCode) (js ''0'') 2
      else [0x5C] @ js ''u'' @ padLeft (hexUpper charCode) (js ''0'') 4)\<close>

definition quote :: "jsstring \<Rightarrow> jsstring" where
  \<open>quote s =
     js ''"'' @
     replace_where (\<lambda>c. 0x80 \<le> c) escape
       (replace_char 0x0A ([0x5C] @ js ''n'')
         (replace_char 0x0D ([0x5C] @ js ''r'')
           (replace_char 0x22 ([0x5C] @ js ''"'')
             (replace_char 0x5C [0x5C, 0x5C] s))))
     @ js ''"''\<close>

section \<open>State of a running parser\<close>

text \<open>
  The variables that \<open>parse\<close> declares and every \<open>parse_<rule>\<close> function shares.
  A cache entry is the object \<open>{ nextPos: ..., result: ... }\<close>; the cache is an object
  indexed by the key string \<open>"<rule>@<pos>"\<close>.
\<close>

record cached =
  nextPos :: nat
  result :: jsvalue

record state =
  pos :: nat
  reportMatchFailures :: bool
  rightmostMatchFailuresPos :: nat
  rightmostMatchFailuresExpected :: "jsstring list"
  cache :: "jsstring \<rightharpoonup> cached"

definition initial_state :: state where
  "initial_state =
     \<lparr>pos = 0, reportMatchFailures = True, rightmostMatchFailuresPos = 0,
      rightmostMatchFailuresExpected = [], cache = Map.empty\<rparr>"

definition matchFailed :: "jsstring \<Rightarrow> state \<Rightarrow> state" where
  "matchFailed failure s =
     (if pos s < rightmostMatchFailuresPos s then s
      else
        let s1 = (if pos s > rightmostMatchFailuresPos s
                  then s\<lparr>rightmostMatchFailuresPos := pos s,
                         rightmostMatchFailuresExpected := []\<rparr>
                  else s)
        in s1\<lparr>rightmostMatchFailuresExpected := rightmostMatchFailuresExpected s1 @ [failure]\<rparr>)"

text \<open>
  \<open>computeErrorPosition\<close>: one step of the loop body for the character \<open>ch\<close>
  (\<open>charAt\<close> yields the empty string past the end, which takes the last branch),
  and the loop over \<open>i = 0 ..< rightmostMatchFailuresPos\<close>.
\<close>

record errorPosition =
  line :: nat
  column :: nat

fun computeErrorPosition_step :: "jsstring \<Rightarrow> nat \<times> nat \<times> bool \<Rightarrow> nat \<times> nat \<times> bool" where
  "computeErrorPosition_step ch (ln, col, seenCR) =
     (if ch = [0x0A] then ((if \<not> seenCR then ln + 1 else ln), 1, False)
      else if ch = [0x0D] \<or> ch = [0x2028] \<or> ch = [0x2029] then (ln + 1, 1, True)
      else (ln, col + 1, False))"

definition computeErrorPosition :: "jsstring \<Rightarrow> state \<Rightarrow> errorPosition" where
  "computeErrorPosition input s =
     (case fold (\<lambda>i. computeErrorPosition_step (charAt input i))
             [0 ..< rightmostMatchFailuresPos s] (1, 1, False)
      of (ln, col, seenCR) \<Rightarrow> \<lparr>line = ln, column = col\<rparr>)"

section \<open>The template engine: \<open>formatCode\<close>\<close>

datatype error =
    Error jsstring
  | ReferenceError jsstring
  | TypeError jsstring
  | SyntaxError jsstring nat nat

definition isIdentStart :: "jschar \<Rightarrow> bool" where
  "isIdentStart c = ((0x61 \<le> c \<and> c \<le> 0x7A) \<or> (0x41 \<le> c \<and> c \<le> 0x5A) \<or> c = 0x5F)"

definition isIdentPart :: "jschar \<Rightarrow> bool" where
  "isIdentPart c = (isIdentStart c \<or> (0x30 \<le> c \<and> c \<le> 0x39))"

text \<open>
  One attempt of the regular expression
  \<^verbatim>\<open>/\$\{([a-zA-Z_][a-zA-Z0-9_]*)(\|([a-zA-Z_][a-zA-Z0-9_]*))?\}/\<close>
  at the start of \<open>s\<close>: the name, the filter if there is one, and the text after the
  match. Neither \<open>|\<close> nor \<open>}\<close> is an identifier character, so only the longest
  name and the longest filter can be followed by what the expression asks for.
\<close>

definition match_variable :: "jsstring \<Rightarrow> (jsstring \<times> jsstring option \<times> jsstring) option" where
  "match_variable s =
     (case s of
        d # b # c # t \<Rightarrow>
          if d = 0x24 \<and> b = 0x7B \<and> isIdentStart c then
            (let name = c # takeWhile isIdentPart t in
             case dropWhile isIdentPart t of
               [] \<Rightarrow> None
             | x # r \<Rightarrow>
                 if x = 0x7D then Some (name, None, r)
                 else if x = 0x7C then
                   (case r of
                      [] \<Rightarrow> None
                    | c' # t' \<Rightarrow>
                        if isIdentStart c' then
                          (case dropWhile isIdentPart t' of
                             [] \<Rightarrow> None
                           | y # r' \<Rightarrow>
                               if y = 0x7D
                               then Some (name, Some (c' # takeWhile isIdentPart t'), r')
                               else None)
                        else None)
                 else None)
          else None
      | _ \<Rightarrow> None)"

text \<open>The replacement function given to \<open>part.replace\<close>.\<close>

definition replacement ::
  "(jsstring \<rightharpoonup> jsstring) \<Rightarrow> jsstring \<Rightarrow> jsstring option \<Rightarrow> error + jsstring" where
  \<open>replacement vars name filt =
     (case vars name of
        None \<Rightarrow> Inl (Error (js ''Undefined variable: "'' @ name @ js ''".''))
      | Some v \<Rightarrow>
          (case filt of
             None \<Rightarrow> Inr v
           | Some f \<Rightarrow>
               if f = js ''string'' then Inr (quote v)
               else Inl (Error (js ''Unrecognized filter: "'' @ f @ js ''".''))))\<close>

function interpolate :: "(jsstring \<rightharpoonup> jsstring) \<Rightarrow> jsstring \<Rightarrow> error + jsstring" where
  "interpolate vars [] = Inr []"
| "interpolate vars (c # t) =
     (case match_variable (c # t) of
        Some (name, filt, r) \<Rightarrow>
          (case replacement vars name filt of
             Inl e \<Rightarrow> Inl e
           | Inr v \<Rightarrow>
               (case interpolate vars r of Inl e \<Rightarrow> Inl e | Inr out \<Rightarrow> Inr (v @ out)))
      | None \<Rightarrow>
          (case interpolate vars t of Inl e \<Rightarrow> Inl e | Inr out \<Rightarrow> Inr (c # out)))"
  by pat_completeness auto
termination
proof (relation "measure (\<lambda>(vars, s). length s)")
  fix vars :: "jsstring \<rightharpoonup> jsstring" and c :: jschar and t x2 and nm :: jsstring
    and y :: "jsstring option \<times> jsstring" and filt r x2a
  assume m: "match_variable (c # t) = Some x2" and x2: "(nm, y) = x2" and y: "(filt, r) = y"
  have dw: "length (dropWhile P xs) \<le> length xs" for P and xs :: jsstring
    by (induction xs) auto
  from m x2 y have m': "match_variable (c # t) = Some (nm, filt, r)" by simp
  then obtain b c0 t0 where s: "t = b # c0 # t0"
    by (auto simp: match_variable_def split: list.splits)
  from m' s obtain x r0 where r0: "dropWhile isIdentPart t0 = x # r0"
    by (auto simp: match_variable_def Let_def split: list.splits if_splits)
  have l0: "length r0 < length t0"
    using dw [of isIdentPart t0] r0 by simp
  have "length r < length (c # t)"
  proof (cases "x = 0x7D")
    case True
    with m' s r0 have "r = r0"
      by (auto simp: match_variable_def Let_def split: if_splits)
    with l0 s show ?thesis by simp
  next
    case False
    with m' s r0 obtain c' t' z where r0': "r0 = c' # t'" and r': "dropWhile isIdentPart t' = z # r"
      by (auto simp: match_variable_def Let_def split: if_splits list.splits)
    have "length r < length t'"
      using dw [of isIdentPart t'] r' by simp
    with r0' l0 s show ?thesis by simp
  qed
  then show "((vars, r), vars, c # t) \<in> measure (\<lambda>(vars, s). length s)" by simp
qed auto

fun interpolateVariablesInParts ::
  "(jsstring \<rightharpoonup> jsstring) \<Rightarrow> jsstring list \<Rightarrow> error + jsstring list" where
  "interpolateVariablesInParts vars [] = Inr []"
| "interpolateVariablesInParts vars (part # parts) =
     (case interpolate vars part of
        Inl e \<Rightarrow> Inl e
      | Inr p \<Rightarrow>
          (case interpolateVariablesInParts vars parts of
             Inl e \<Rightarrow> Inl e
           | Inr ps \<Rightarrow> Inr (p # ps)))"

text \<open>
  The characters the regular expression class \<open>\s\<close> matches: the white space and
  line terminator characters of ECMAScript 5 (tab, vertical tab, form feed, space,
  no-break space, byte order mark, the space separators of Unicode; line feed,
  carriage return, line separator, paragraph separator).
\<close>

definition isWhiteSpace :: "jschar \<Rightarrow> bool" where
  "isWhiteSpace c =
     (c = 0x09 \<or> c = 0x0A \<or> c = 0x0B \<or> c = 0x0C \<or> c = 0x0D \<or> c = 0x20 \<or> c = 0xA0
      \<or> c = 0x1680 \<or> c = 0x180E \<or> (0x2000 \<le> c \<and> c \<le> 0x200A)
      \<or> c = 0x2028 \<or> c = 0x2029 \<or> c = 0x202F \<or> c = 0x205F \<or> c = 0x3000 \<or> c = 0xFEFF)"

text \<open>\<open>s.split("\n")\<close>: always at least one line.\<close>

fun split :: "jschar \<Rightarrow> jsstring \<Rightarrow> jsstring list" where
  "split sep [] = [[]]"
| "split sep (c # cs) =
     (if c = sep then [] # split sep cs
      else (case split sep cs of [] \<Rightarrow> [[c]] | l # ls \<Rightarrow> (c # l) # ls))"

definition indentMultilinePart :: "jsstring \<Rightarrow> jsstring" where
  "indentMultilinePart part =
     (if 0x0A \<notin> set part then part
      else
        let firstLineWhitespacePrefix = takeWhile isWhiteSpace part;
            lines = split 0x0A part;
            linesIndented =
              (case lines of
                 [] \<Rightarrow> []
               | l # ls \<Rightarrow> l # map (\<lambda>line. firstLineWhitespacePrefix @ line) ls)
        in join [0x0A] linesIndented)"

definition indentMultilineParts :: "jsstring list \<Rightarrow> jsstring list" where
  "indentMultilineParts parts = map indentMultilinePart parts"

text \<open>
  \<open>formatCode(part, ..., vars)\<close>; the variable set is empty when the last argument
  is not an object.
\<close>

definition formatCode :: "jsstring list \<Rightarrow> (jsstring \<rightharpoonup> jsstring) \<Rightarrow> error + jsstring" where
  "formatCode args vars =
     (case interpolateVariablesInParts vars args of
        Inl e \<Rightarrow> Inl e
      | Inr parts \<Rightarrow> Inr (join [0x0A] (indentMultilineParts parts)))"

section \<open>The grammar AST\<close>

datatype classPart = Single jschar | Range jschar jschar

datatype expr =
    Choice "expr list"
  | Sequence "expr list"
  | Labeled jsstring expr
  | Simple_and expr
  | Simple_not expr
  | Semantic_and jsstring
  | Semantic_not jsstring
  | Optional expr
  | Zero_or_more expr
  | One_or_more expr
  | Action expr jsstring
  | Rule_ref jsstring
  | Literal jsstring
  | Any
  | Class "classPart list" bool jsstring

record rule =
  name :: jsstring
  displayName :: "jsstring option"
  expression :: expr

text \<open>
  \<open>rules\<close> is an object used as a mapping; \<open>for (var name in node.rules)\<close> visits
  its keys in some enumeration order, which the list keeps.
\<close>

record grammar =
  initializer :: "jsstring option"
  startRule :: jsstring
  rules :: "(jsstring \<times> rule) list"

section \<open>What the emitted fragments do\<close>

text \<open>
  Every emission function returns the text of a fragment that works on the shared
  variables of \<open>parse\<close>. Each fragment is modelled by the state transformer it
  denotes, together with the value it leaves in its result variable. An execution
  may not return (a loop that never exits, a left-recursive rule): the executor takes
  fuel, and \<open>None\<close> means that the fuel did not suffice. An exception thrown inside
  the parser is \<open>Some (Inl e)\<close>.

  User code (actions and semantic predicates) is text in the AST. Its meaning is a
  parameter \<open>run\<close>: the value that the code returns for the given bindings of its
  formal parameters. User code is taken to be a function of its arguments that does
  not assign the parser's variables.
\<close>

type_synonym 'a outcome = "(error + 'a) option"

type_synonym usercode = "jsstring \<Rightarrow> (jsstring \<times> jsvalue) list \<Rightarrow> jsvalue"

type_synonym executor = "expr \<Rightarrow> state \<Rightarrow> (jsvalue \<times> state) outcome"

definition andThen :: "'a outcome \<Rightarrow> ('a \<Rightarrow> 'b outcome) \<Rightarrow> 'b outcome" where
  "andThen m f = (case m of None \<Rightarrow> None | Some (Inl e) \<Rightarrow> Some (Inl e) | Some (Inr x) \<Rightarrow> f x)"

definition ok :: "jsvalue \<Rightarrow> state \<Rightarrow> (jsvalue \<times> state) outcome" where
  "ok v s = Some (Inr (v, s))"

text \<open>\<open>if (reportMatchFailures) { matchFailed(failure); }\<close>\<close>

definition reportFailure :: "jsstring \<Rightarrow> state \<Rightarrow> state" where
  "reportFailure failure s = (if reportMatchFailures s then matchFailed failure s else s)"

text \<open>\<open>choice\<close>: the nested \<open>if\<close>/\<open>else\<close> chain over the alternatives.\<close>

primrec choice_alternatives :: "executor \<Rightarrow> expr list \<Rightarrow> state \<Rightarrow> (jsvalue \<times> state) outcome" where
  "choice_alternatives ex [] s = ok JNull s"
| "choice_alternatives ex (a # alts) s =
     andThen (ex a s) (\<lambda>(v, s').
       if v \<noteq> JNull then ok v s' else choice_alternatives ex alts s')"

text \<open>\<open>sequence\<close>: the nested chain over the elements, after \<open>var savedPos = pos\<close>.\<close>

primrec sequence_elements ::
  "executor \<Rightarrow> nat \<Rightarrow> expr list \<Rightarrow> jsvalue list \<Rightarrow> state \<Rightarrow> (jsvalue \<times> state) outcome" where
  "sequence_elements ex savedPos [] rs s = ok (JArr rs) s"
| "sequence_elements ex savedPos (e # es) rs s =
     andThen (ex e s) (\<lambda>(v, s').
       if v \<noteq> JNull then sequence_elements ex savedPos es (rs @ [v]) s'
       else ok JNull (s'\<lparr>pos := savedPos\<rparr>))"

text \<open>
  The loop \<open>while (r !== null) { result.push(r); <expression code> }\<close> of the two
  repetitions; \<open>v\<close> is the current value of \<open>r\<close> and \<open>rs\<close> that of \<open>result\<close>.
\<close>

primrec while_push ::
  "nat \<Rightarrow> (state \<Rightarrow> (jsvalue \<times> state) outcome) \<Rightarrow> jsvalue list \<Rightarrow> jsvalue \<Rightarrow> state
     \<Rightarrow> (jsvalue \<times> state) outcome" where
  "while_push 0 body rs v s = None"
| "while_push (Suc k) body rs v s =
     (if v \<noteq> JNull
      then andThen (body s) (\<lambda>(v', s'). while_push k body (rs @ [v]) v' s')
      else ok (JArr rs) s)"

text \<open>\<open>r[i]\<close> for a value \<open>r\<close> that is not \<open>null\<close>.\<close>

fun jsindex :: "jsvalue \<Rightarrow> nat \<Rightarrow> jsvalue" where
  "jsindex (JArr rs) i = (if i < length rs then rs ! i else JUndefined)"
| "jsindex (JStr str) i = (if i < length str then JStr [str ! i] else JUndefined)"
| "jsindex v i = JUndefined"

text \<open>The formal and actual parameters that \<open>action\<close> computes from the expression.\<close>

fun labeled_params :: "expr list \<Rightarrow> nat \<Rightarrow> jsvalue \<Rightarrow> (jsstring \<times> jsvalue) list" where
  "labeled_params [] i v = []"
| "labeled_params (Labeled l e # es) i v = (l, jsindex v i) # labeled_params es (i + 1) v"
| "labeled_params (e # es) i v = labeled_params es (i + 1) v"

fun action_params :: "expr \<Rightarrow> jsvalue \<Rightarrow> (jsstring \<times> jsvalue) list" where
  "action_params (Sequence elements) v = labeled_params elements 0 v"
| "action_params (Labeled l e) v = [(l, v)]"
| "action_params e v = []"

text \<open>
  \<open>class\<close>: whether \<open>input.substr(pos).match(regexp)\<close> is not \<open>null\<close>. The regular
  expression is a character class anchored at the start (\<open>/^[...]/\<close>, \<open>/^[^...]/\<close>),
  or \<open>/^[\S\s]/\<close> and \<open>/^(?!)/\<close> for an empty list of parts.
\<close>

definition inClass :: "classPart list \<Rightarrow> jschar \<Rightarrow> bool" where
  "inClass parts c =
     list_ex (\<lambda>p. case p of Single x \<Rightarrow> c = x | Range lo hi \<Rightarrow> lo \<le> c \<and> c \<le> hi) parts"

definition class_matches :: "classPart list \<Rightarrow> bool \<Rightarrow> jsstring \<Rightarrow> bool" where
  "class_matches parts inverted str =
     (case str of
        [] \<Rightarrow> False
      | c # cs \<Rightarrow>
          if parts \<noteq> [] then (if inverted then \<not> inClass parts c else inClass parts c)
          else inverted)"

text \<open>
  The function \<open>parse_<name>\<close> that \<open>rule\<close> emits; \<open>ex\<close> executes the fragment of
  the rule's expression.
\<close>

definition cacheKey :: "jsstring \<Rightarrow> nat \<Rightarrow> jsstring" where
  "cacheKey nm p = nm @ js ''@'' @ dec p"

definition parse_rule :: "executor \<Rightarrow> rule \<Rightarrow> state \<Rightarrow> (jsvalue \<times> state) outcome" where
  "parse_rule ex r s =
     (let key = cacheKey (name r) (pos s) in
      case cache s key of
        Some cachedResult \<Rightarrow> ok (result cachedResult) (s\<lparr>pos := nextPos cachedResult\<rparr>)
      | None \<Rightarrow>
          (let savedReportMatchFailures = reportMatchFailures s;
               s1 = (if displayName r \<noteq> None then s\<lparr>reportMatchFailures := False\<rparr> else s)
           in andThen (ex (expression r) s1) (\<lambda>(v, s2).
                let s3 = (if displayName r \<noteq> None
                          then s2\<lparr>reportMatchFailures := savedReportMatchFailures\<rparr> else s2);
                    s4 = (case displayName r of
                            Some d \<Rightarrow>
                              if reportMatchFailures s3 \<and> v = JNull then matchFailed d s3 else s3
                          | None \<Rightarrow> s3)
                in ok v (s4\<lparr>cache := (cache s4)(key \<mapsto> \<lparr>nextPos = pos s4, result = v\<rparr>)\<rparr>))))"

text \<open>
  The function that the identifier \<open>parse_<nm>\<close> denotes: every rule declares one
  under its own name, and a later declaration of the same name replaces an earlier one.
\<close>

definition parseFunction :: "(jsstring \<times> rule) list \<Rightarrow> jsstring \<Rightarrow> rule option" where
  "parseFunction rs nm =
     (case filter (\<lambda>r. name r = nm) (map snd rs) of [] \<Rightarrow> None | f # fs \<Rightarrow> Some (last (f # fs)))"

text \<open>
  One fragment, given the executor \<open>ex\<close> for the fragments nested in it and the
  number \<open>k\<close> of iterations its loop may take.
\<close>

fun fragment ::
  "(jsstring \<times> rule) list \<Rightarrow> usercode \<Rightarrow> jsstring \<Rightarrow> nat \<Rightarrow> executor \<Rightarrow> executor" where
  "fragment rs run input k ex (Choice alternatives) s = choice_alternatives ex alternatives s"
| "fragment rs run input k ex (Sequence elements) s =
     sequence_elements ex (pos s) elements [] s"
| "fragment rs run input k ex (Labeled l e) s = ex e s"
| "fragment rs run input k ex (Simple_and e) s =
     (let savedPos = pos s; savedReportMatchFailures = reportMatchFailures s
      in andThen (ex e (s\<lparr>reportMatchFailures := False\<rparr>)) (\<lambda>(v, s1).
           let s2 = s1\<lparr>reportMatchFailures := savedReportMatchFailures\<rparr>
           in if v \<noteq> JNull then ok (JStr []) (s2\<lparr>pos := savedPos\<rparr>) else ok JNull s2))"
| "fragment rs run input k ex (Simple_not e) s =
     (let savedPos = pos s; savedReportMatchFailures = reportMatchFailures s
      in andThen (ex e (s\<lparr>reportMatchFailures := False\<rparr>)) (\<lambda>(v, s1).
           let s2 = s1\<lparr>reportMatchFailures := savedReportMatchFailures\<rparr>
           in if v = JNull then ok (JStr []) s2 else ok JNull (s2\<lparr>pos := savedPos\<rparr>)))"
| "fragment rs run input k ex (Semantic_and code) s =
     ok (if truthy (run code []) then JStr [] else JNull) s"
| "fragment rs run input k ex (Semantic_not code) s =
     ok (if truthy (run code []) then JNull else JStr []) s"
| "fragment rs run input k ex (Optional e) s =
     andThen (ex e s) (\<lambda>(v, s1). ok (if v \<noteq> JNull then v else JStr []) s1)"
| "fragment rs run input k ex (Zero_or_more e) s =
     andThen (ex e s) (\<lambda>(v, s1). while_push k (ex e) [] v s1)"
| "fragment rs run input k ex (One_or_more e) s =
     andThen (ex e s) (\<lambda>(v, s1).
       if v \<noteq> JNull then while_push k (ex e) [] v s1 else ok JNull s1)"
| "fragment rs run input k ex (Action e code) s =
     andThen (ex e s) (\<lambda>(v, s1).
       ok (if v \<noteq> JNull then run code (action_params e v) else JNull) s1)"
| "fragment rs run input k ex (Rule_ref nm) s =
     (case parseFunction rs nm of
        None \<Rightarrow> Some (Inl (ReferenceError (js ''parse_'' @ nm @ js '' is not defined'')))
      | Some r \<Rightarrow> parse_rule ex r s)"
| "fragment rs run input k ex (Literal val) s =
     (if substr input (pos s) (length val) = val
      then ok (JStr val) (s\<lparr>pos := pos s + length val\<rparr>)
      else ok JNull (reportFailure (quote val) s))"
| "fragment rs run input k ex Any s =
     (if length input > pos s
      then ok (JStr (charAt input (pos s))) (s\<lparr>pos := pos s + 1\<rparr>)
      else ok JNull (reportFailure (js ''any character'') s))"
| "fragment rs run input k ex (Class parts inverted rawText) s =
     (if class_matches parts inverted (substr_from input (pos s))
      then ok (JStr (charAt input (pos s))) (s\<lparr>pos := pos s + 1\<rparr>)
      else ok JNull (reportFailure rawText s))"

text \<open>Executing a fragment with fuel \<open>n\<close>: its nesting depth and loop iterations.\<close>

primrec exec ::
  "(jsstring \<times> rule) list \<Rightarrow> usercode \<Rightarrow> jsstring \<Rightarrow> nat \<Rightarrow> executor" where
  "exec rs run input 0 = (\<lambda>e s. None)"
| "exec rs run input (Suc n) = fragment rs run input n (exec rs run input n)"

section \<open>The entry point \<open>parse\<close> of a generated parser\<close>

text \<open>The loop of \<open>buildExpected\<close> that drops repeated neighbours; \<open>None\<close> is \<open>null\<close>.\<close>

fun failuresExpectedUnique :: "jsstring option \<Rightarrow> jsstring list \<Rightarrow> jsstring list" where
  "failuresExpectedUnique lastFailure [] = []"
| "failuresExpectedUnique lastFailure (f # fs) =
     (if Some f \<noteq> lastFailure then f # failuresExpectedUnique (Some f) fs
      else failuresExpectedUnique lastFailure fs)"

text \<open>\<open>Array.prototype.sort()\<close> without a comparison function orders strings by code units.\<close>

definition buildExpected :: "jsstring list \<Rightarrow> jsstring" where
  "buildExpected failuresExpected =
     (let u = failuresExpectedUnique None (sort failuresExpected) in
      case u of
        [] \<Rightarrow> js ''end of input''
      | [f] \<Rightarrow> f
      | _ \<Rightarrow> join (js '', '') (butlast u) @ js '' or '' @ last u)"

definition buildErrorMessage :: "jsstring \<Rightarrow> state \<Rightarrow> jsstring" where
  "buildErrorMessage input s =
     (let expected = buildExpected (rightmostMatchFailuresExpected s);
          actualPos = max (pos s) (rightmostMatchFailuresPos s);
          actual = (if actualPos < length input then quote (charAt input actualPos)
                    else js ''end of input'')
      in js ''Expected '' @ expected @ js '' but '' @ actual @ js '' found.'')"

text \<open>
  The items of the object literal \<open>parseFunctions\<close>, sorted as the emitter sorts
  them. Evaluating the literal reads every \<open>parse_<name>\<close>.
\<close>

definition parseFunctionTableItem :: "jsstring \<Rightarrow> jsstring" where
  "parseFunctionTableItem nm = quote nm @ js '': parse_'' @ nm"


text \<open>
  The first part of \<open>parse(input, startRule)\<close>: building the table, checking the
  start rule and reading its function from the table. \<open>startRuleArg = None\<close> when
  the second argument is \<open>undefined\<close>. Property names that an object inherits are
  not modelled: the table \<open>parseFunctions\<close> has the rule names only.
\<close>

definition startFunction :: "grammar \<Rightarrow> jsstring option \<Rightarrow> error + rule" where
  \<open>startFunction g startRuleArg =
     (case filter (\<lambda>nm. parseFunction (rules g) nm = None)
             (sort_key parseFunctionTableItem (map fst (rules g))) of
        nm # nms \<Rightarrow> Inl (ReferenceError (js ''parse_'' @ nm @ js '' is not defined''))
      | [] \<Rightarrow>
          (case (case startRuleArg of
                   Some sr \<Rightarrow>
                     if sr \<notin> set (map fst (rules g))
                     then Inl (Error (js ''Invalid rule name: '' @ quote sr @ js ''.''))
                     else Inr sr
                 | None \<Rightarrow> Inr (startRule g)) of
             Inl e \<Rightarrow> Inl e
           | Inr sr \<Rightarrow>
               (case (if sr \<in> set (map fst (rules g)) then parseFunction (rules g) sr else None) of
                  None \<Rightarrow> Inl (TypeError (js ''parseFunctions[startRule] is not a function''))
                | Some r \<Rightarrow> Inr r)))\<close>

text \<open>
  \<open>parse\<close>: the variables are initialised, the start rule's function is called, and
  its result is returned or a \<open>SyntaxError\<close> is thrown.
\<close>

definition parse ::
  "grammar \<Rightarrow> usercode \<Rightarrow> nat \<Rightarrow> jsstring \<Rightarrow> jsstring option \<Rightarrow> jsvalue outcome" where
  "parse g run n input startRuleArg =
     (case startFunction g startRuleArg of
        Inl e \<Rightarrow> Some (Inl e)
      | Inr r \<Rightarrow>
          andThen (parse_rule (exec (rules g) run input n) r initial_state)
            (\<lambda>(res, s).
               if res = JNull \<or> pos s \<noteq> length input then
                 (let errorPosition = computeErrorPosition input s
                  in Some (Inl (SyntaxError (buildErrorMessage input s)
                                  (line errorPosition) (column errorPosition))))
               else Some (Inr res)))"

section \<open>The emitter\<close>

text \<open>
  The unique ID generator: a counter for every prefix, absent counters count as 0.
\<close>

type_synonym uid = "jsstring \<rightharpoonup> nat"

definition UID_next :: "jsstring \<Rightarrow> uid \<Rightarrow> jsstring \<times> uid" where
  "UID_next prefix counters =
     (let n = (case counters prefix of None \<Rightarrow> 0 | Some k \<Rightarrow> k)
      in (prefix @ dec n, counters(prefix \<mapsto> n + 1)))"


text \<open>
  An emission function returns the text of a fragment and leaves the ID generator
  advanced, or it throws: \<open>formatCode\<close> throws for a variable that is not defined.
\<close>

type_synonym 'a emitting = "error + 'a \<times> uid"

definition andThenE :: "'a emitting \<Rightarrow> ('a \<Rightarrow> uid \<Rightarrow> 'b emitting) \<Rightarrow> 'b emitting" where
  "andThenE m f = (case m of Inl e \<Rightarrow> Inl e | Inr (x, u) \<Rightarrow> f x u)"

definition formatted :: "jsstring list \<Rightarrow> (jsstring \<times> jsstring) list \<Rightarrow> uid \<Rightarrow> jsstring emitting" where
  "formatted parts vars u =
     (case formatCode parts (map_of vars) of Inl e \<Rightarrow> Inl e | Inr code \<Rightarrow> Inr (code, u))"

text \<open>The templates of the operator emitters, with the variables they are given.\<close>

definition choice_none :: "jsstring \<Rightarrow> uid \<Rightarrow> jsstring emitting" where
  \<open>choice_none resultVar =
     formatted
       [js ''var ${resultVar} = null;'']
       [(js ''resultVar'', resultVar)]\<close>

definition choice_alternative ::
  "jsstring \<Rightarrow> jsstring \<Rightarrow> jsstring \<Rightarrow> jsstring \<Rightarrow> uid \<Rightarrow> jsstring emitting" where
  \<open>choice_alternative alternativeCode alternativeResultVar code resultVar =
     formatted
       [js ''${alternativeCode}'',
         js ''if (${alternativeResultVar} !== null) {'',
         js ''  var ${resultVar} = ${alternativeResultVar};'',
         js ''} else {'',
         js ''  ${code};'',
         js ''}'']
       [(js ''alternativeCode'', alternativeCode),
        (js ''alternativeResultVar'', alternativeResultVar),
        (js ''code'', code),
        (js ''resultVar'', resultVar)]\<close>

definition sequence_result :: "jsstring \<Rightarrow> jsstring list \<Rightarrow> uid \<Rightarrow> jsstring emitting" where
  \<open>sequence_result resultVar elementResultVars =
     formatted
       [js ''var ${resultVar} = ${elementResultVarArray};'']
       [(js ''resultVar'', resultVar),
        (js ''elementResultVarArray'', js ''['' @ join (js '', '') elementResultVars @ js '']'')]\<close>

definition sequence_element ::
  "jsstring \<Rightarrow> jsstring \<Rightarrow> jsstring \<Rightarrow> jsstring \<Rightarrow> jsstring \<Rightarrow> uid \<Rightarrow> jsstring emitting" where
  \<open>sequence_element elementCode elementResultVar code savedPosVar resultVar =
     formatted
       [js ''${elementCode}'',
         js ''if (${elementResultVar} !== null) {'',
         js ''  ${code}'',
         js ''} else {'',
         js ''  var ${resultVar} = null;'',
         js ''  pos = ${savedPosVar};'',
         js ''}'']
       [(js ''elementCode'', elementCode),
        (js ''elementResultVar'', elementResultVar),
        (js ''code'', code),
        (js ''savedPosVar'', savedPosVar),
        (js ''resultVar'', resultVar)]\<close>

definition sequence_saved :: "jsstring \<Rightarrow> jsstring \<Rightarrow> uid \<Rightarrow> jsstring emitting" where
  \<open>sequence_saved code savedPosVar =
     formatted
       [js ''var ${savedPosVar} = pos;'',
         js ''${code}'']
       [(js ''code'', code),
        (js ''savedPosVar'', savedPosVar)]\<close>

definition simple_and_code ::
  "jsstring \<Rightarrow> jsstring \<Rightarrow> jsstring \<Rightarrow> jsstring \<Rightarrow> jsstring \<Rightarrow> uid \<Rightarrow> jsstring emitting" where
  \<open>simple_and_code expressionCode expressionResultVar savedPosVar savedReportMatchFailuresVar
       resultVar =
     formatted
       [js ''var ${savedPosVar} = pos;'',
         js ''var ${savedReportMatchFailuresVar} = reportMatchFailures;'',
         js ''reportMatchFailures = false;'',
         js ''${expressionCode}'',
         js ''reportMatchFailures = ${savedReportMatchFailuresVar};'',
         js ''if (${expressionResultVar} !== null) {'',
         js ''  var ${resultVar} = '' @ [0x27, 0x27] @ js '';'',
         js ''  pos = ${savedPosVar};'',
         js ''} else {'',
         js ''  var ${resultVar} = null;'',
         js ''}'']
       [(js ''expressionCode'', expressionCode),
        (js ''expressionResultVar'', expressionResultVar),
        (js ''savedPosVar'', savedPosVar),
        (js ''savedReportMatchFailuresVar'', savedReportMatchFailuresVar),
        (js ''resultVar'', resultVar)]\<close>

definition simple_not_code ::
  "jsstring \<Rightarrow> jsstring \<Rightarrow> jsstring \<Rightarrow> jsstring \<Rightarrow> jsstring \<Rightarrow> uid \<Rightarrow> jsstring emitting" where
  \<open>simple_not_code expressionCode expressionResultVar savedPosVar savedReportMatchFailuresVar
       resultVar =
     formatted
       [js ''var ${savedPosVar} = pos;'',
         js ''var ${savedReportMatchFailuresVar} = reportMatchFailures;'',
         js ''reportMatchFailures = false;'',
         js ''${expressionCode}'',
         js ''reportMatchFailures = ${savedReportMatchFailuresVar};'',
         js ''if (${expressionResultVar} === null) {'',
         js ''  var ${resultVar} = '' @ [0x27, 0x27] @ js '';'',
         js ''} else {'',
         js ''  var ${resultVar} = null;'',
         js ''  pos = ${savedPosVar};'',
         js ''}'']
       [(js ''expressionCode'', expressionCode),
        (js ''expressionResultVar'', expressionResultVar),
        (js ''savedPosVar'', savedPosVar),
        (js ''savedReportMatchFailuresVar'', savedReportMatchFailuresVar),
        (js ''resultVar'', resultVar)]\<close>

definition semantic_and_code :: "jsstring \<Rightarrow> jsstring \<Rightarrow> uid \<Rightarrow> jsstring emitting" where
  \<open>semantic_and_code actionCode resultVar =
     formatted
       [js ''var ${resultVar} = (function() {${actionCode}})() ? '' @ [0x27, 0x27] @ js '' : null;'']
       [(js ''actionCode'', actionCode),
        (js ''resultVar'', resultVar)]\<close>

definition semantic_not_code :: "jsstring \<Rightarrow> jsstring \<Rightarrow> uid \<Rightarrow> jsstring emitting" where
  \<open>semantic_not_code actionCode resultVar =
     formatted
       [js ''var ${resultVar} = (function() {${actionCode}})() ? null : '' @ [0x27, 0x27] @ js '';'']
       [(js ''actionCode'', actionCode),
        (js ''resultVar'', resultVar)]\<close>

definition optional_code :: "jsstring \<Rightarrow> jsstring \<Rightarrow> jsstring \<Rightarrow> uid \<Rightarrow> jsstring emitting" where
  \<open>optional_code expressionCode expressionResultVar resultVar =
     formatted
       [js ''${expressionCode}'',
         js ''var ${resultVar} = ${expressionResultVar} !== null ? ${expressionResultVar} : '' @ [0x27, 0x27] @ js '';'']
       [(js ''expressionCode'', expressionCode),
        (js ''expressionResultVar'', expressionResultVar),
        (js ''resultVar'', resultVar)]\<close>

definition zero_or_more_code :: "jsstring \<Rightarrow> jsstring \<Rightarrow> jsstring \<Rightarrow> uid \<Rightarrow> jsstring emitting" where
  \<open>zero_or_more_code expressionCode expressionResultVar resultVar =
     formatted
       [js ''var ${resultVar} = [];'',
         js ''${expressionCode}'',
         js ''while (${expressionResultVar} !== null) {'',
         js ''  ${resultVar}.push(${expressionResultVar});'',
         js ''  ${expressionCode}'',
         js ''}'']
       [(js ''expressionCode'', expressionCode),
        (js ''expressionResultVar'', expressionResultVar),
        (js ''resultVar'', resultVar)]\<close>

definition one_or_more_code :: "jsstring \<Rightarrow> jsstring \<Rightarrow> jsstring \<Rightarrow> uid \<Rightarrow> jsstring emitting" where
  \<open>one_or_more_code expressionCode expressionResultVar resultVar =
     formatted
       [js ''${expressionCode}'',
         js ''if (${expressionResultVar} !== null) {'',
         js ''  var ${resultVar} = [];'',
         js ''  while (${expressionResultVar} !== null) {'',
         js ''    ${resultVar}.push(${expressionResultVar});'',
         js ''    ${expressionCode}'',
         js ''  }'',
         js ''} else {'',
         js ''  var ${resultVar} = null;'',
         js ''}'']
       [(js ''expressionCode'', expressionCode),
        (js ''expressionResultVar'', expressionResultVar),
        (js ''resultVar'', resultVar)]\<close>

text \<open>The parameters of the function that \<open>action\<close> wraps around the user's code.\<close>

fun labeled_formalParams :: "expr list \<Rightarrow> jsstring list" where
  "labeled_formalParams [] = []"
| "labeled_formalParams (Labeled l e # es) = l # labeled_formalParams es"
| "labeled_formalParams (e # es) = labeled_formalParams es"

fun labeled_actualParams :: "jsstring \<Rightarrow> expr list \<Rightarrow> nat \<Rightarrow> jsstring list" where
  "labeled_actualParams expressionResultVar [] i = []"
| "labeled_actualParams expressionResultVar (Labeled l e # es) i =
     (expressionResultVar @ js ''['' @ dec i @ js '']'')
       # labeled_actualParams expressionResultVar es (i + 1)"
| "labeled_actualParams expressionResultVar (e # es) i =
     labeled_actualParams expressionResultVar es (i + 1)"

fun formalParams :: "expr \<Rightarrow> jsstring list" where
  "formalParams (Sequence elements) = labeled_formalParams elements"
| "formalParams (Labeled l e) = [l]"
| "formalParams e = []"

fun actualParams :: "jsstring \<Rightarrow> expr \<Rightarrow> jsstring list" where
  "actualParams expressionResultVar (Sequence elements) =
     labeled_actualParams expressionResultVar elements 0"
| "actualParams expressionResultVar (Labeled l e) = [expressionResultVar]"
| "actualParams expressionResultVar e = []"

definition action_code ::
  "jsstring \<Rightarrow> jsstring \<Rightarrow> jsstring \<Rightarrow> jsstring list \<Rightarrow> jsstring list \<Rightarrow> jsstring
     \<Rightarrow> uid \<Rightarrow> jsstring emitting" where
  \<open>action_code expressionCode expressionResultVar actionCode formals actuals resultVar =
     formatted
       [js ''${expressionCode}'',
         js ''var ${resultVar} = ${expressionResultVar} !== null'',
         js ''  ? (function(${formalParams}) {${actionCode}})(${actualParams})'',
         js ''  : null;'']
       [(js ''expressionCode'', expressionCode),
        (js ''expressionResultVar'', expressionResultVar),
        (js ''actionCode'', actionCode),
        (js ''formalParams'', join (js '', '') formals),
        (js ''actualParams'', join (js '', '') actuals),
        (js ''resultVar'', resultVar)]\<close>

definition rule_ref_code :: "jsstring \<Rightarrow> jsstring \<Rightarrow> uid \<Rightarrow> jsstring emitting" where
  \<open>rule_ref_code nm resultVar =
     formatted
       [js ''var ${resultVar} = ${ruleMethod}();'']
       [(js ''ruleMethod'', js ''parse_'' @ nm),
        (js ''resultVar'', resultVar)]\<close>

definition literal_code :: "jsstring \<Rightarrow> jsstring \<Rightarrow> uid \<Rightarrow> jsstring emitting" where
  \<open>literal_code val resultVar =
     formatted
       [js ''if (input.substr(pos, ${length}) === ${value|string}) {'',
         js ''  var ${resultVar} = ${value|string};'',
         js ''  pos += ${length};'',
         js ''} else {'',
         js ''  var ${resultVar} = null;'',
         js ''  if (reportMatchFailures) {'',
         js ''    matchFailed(${valueQuoted|string});'',
         js ''  }'',
         js ''}'']
       [(js ''value'', val),
        (js ''valueQuoted'', quote val),
        (js ''length'', dec (length val)),
        (js ''resultVar'', resultVar)]\<close>

definition any_code :: "jsstring \<Rightarrow> uid \<Rightarrow> jsstring emitting" where
  \<open>any_code resultVar =
     formatted
       [js ''if (input.length > pos) {'',
         js ''  var ${resultVar} = input.charAt(pos);'',
         js ''  pos++;'',
         js ''} else {'',
         js ''  var ${resultVar} = null;'',
         js ''  if (reportMatchFailures) {'',
         js ''    matchFailed('any character');'',
         js ''  }'',
         js ''}'']
       [(js ''resultVar'', resultVar)]\<close>

text \<open>
  The regular expression of a class. \<open>quoteForRegexpClass\<close> is a function of the
  compiler's utilities; the emitter takes it as the parameter \<open>q\<close>.
\<close>

definition class_regexp :: "(jsstring \<Rightarrow> jsstring) \<Rightarrow> classPart list \<Rightarrow> bool \<Rightarrow> jsstring" where
  \<open>class_regexp q parts inverted =
     (if length parts > 0 then
        js ''/^['' @ (if inverted then js ''^'' else [])
          @ join [] (map (\<lambda>part. case part of
                                    Range lo hi \<Rightarrow> q [lo] @ js ''-'' @ q [hi]
                                  | Single c \<Rightarrow> q [c]) parts)
          @ js '']/''
      else if inverted then js ''/^['' @ [0x5C] @ js ''S'' @ [0x5C] @ js ''s]/'' else js ''/^(?!)/'')\<close>

definition class_code ::
  "(jsstring \<Rightarrow> jsstring) \<Rightarrow> classPart list \<Rightarrow> bool \<Rightarrow> jsstring \<Rightarrow> jsstring
     \<Rightarrow> uid \<Rightarrow> jsstring emitting" where
  \<open>class_code q parts inverted rawText resultVar =
     formatted
       [js ''if (input.substr(pos).match(${regexp}) !== null) {'',
         js ''  var ${resultVar} = input.charAt(pos);'',
         js ''  pos++;'',
         js ''} else {'',
         js ''  var ${resultVar} = null;'',
         js ''  if (reportMatchFailures) {'',
         js ''    matchFailed(${rawText|string});'',
         js ''  }'',
         js ''}'']
       [(js ''regexp'', class_regexp q parts inverted),
        (js ''rawText'', rawText),
        (js ''resultVar'', resultVar)]\<close>

text \<open>\<open>map(node.elements, function() { return UID.next("result") })\<close>\<close>

fun elementResultVars :: "'a list \<Rightarrow> uid \<Rightarrow> jsstring list \<times> uid" where
  "elementResultVars [] u = ([], u)"
| "elementResultVars (e # es) u =
     (case UID_next (js ''result'') u of
        (v, u1) \<Rightarrow> (case elementResultVars es u1 of (vs, u2) \<Rightarrow> (v # vs, u2)))"

text \<open>
  \<open>emit\<close> for an operator node. The loops of \<open>choice\<close> and \<open>sequence\<close> run from the
  last alternative or element to the first, so the recursion handles the rest of the
  list before its head.
\<close>

fun emit :: "(jsstring \<Rightarrow> jsstring) \<Rightarrow> expr \<Rightarrow> jsstring \<Rightarrow> uid \<Rightarrow> jsstring emitting"
  and emit_alternatives ::
    "(jsstring \<Rightarrow> jsstring) \<Rightarrow> expr list \<Rightarrow> jsstring \<Rightarrow> jsstring \<Rightarrow> uid \<Rightarrow> jsstring emitting"
  and emit_elements ::
    "(jsstring \<Rightarrow> jsstring) \<Rightarrow> expr list \<Rightarrow> jsstring list \<Rightarrow> jsstring \<Rightarrow> jsstring \<Rightarrow> jsstring
       \<Rightarrow> uid \<Rightarrow> jsstring emitting"
where
  "emit q (Choice alternatives) resultVar u =
     andThenE (choice_none resultVar u)
       (\<lambda>code u1. emit_alternatives q alternatives resultVar code u1)"
| "emit q (Sequence elements) resultVar u =
     (case UID_next (js ''savedPos'') u of
        (savedPosVar, u1) \<Rightarrow>
          (case elementResultVars elements u1 of
             (vars, u2) \<Rightarrow>
               andThenE (sequence_result resultVar vars u2)
                 (\<lambda>code u3.
                    andThenE (emit_elements q elements vars resultVar savedPosVar code u3)
                      (\<lambda>code1 u4. sequence_saved code1 savedPosVar u4))))"
| "emit q (Labeled l e) resultVar u = emit q e resultVar u"
| "emit q (Simple_and e) resultVar u =
     (case UID_next (js ''savedPos'') u of
        (savedPosVar, u1) \<Rightarrow>
          (case UID_next (js ''savedReportMatchFailuresVar'') u1 of
             (savedReportMatchFailuresVar, u2) \<Rightarrow>
               (case UID_next (js ''result'') u2 of
                  (expressionResultVar, u3) \<Rightarrow>
                    andThenE (emit q e expressionResultVar u3)
                      (\<lambda>expressionCode u4.
                         simple_and_code expressionCode expressionResultVar savedPosVar
                           savedReportMatchFailuresVar resultVar u4))))"
| "emit q (Simple_not e) resultVar u =
     (case UID_next (js ''savedPos'') u of
        (savedPosVar, u1) \<Rightarrow>
          (case UID_next (js ''savedReportMatchFailuresVar'') u1 of
             (savedReportMatchFailuresVar, u2) \<Rightarrow>
               (case UID_next (js ''result'') u2 of
                  (expressionResultVar, u3) \<Rightarrow>
                    andThenE (emit q e expressionResultVar u3)
                      (\<lambda>expressionCode u4.
                         simple_not_code expressionCode expressionResultVar savedPosVar
                           savedReportMatchFailuresVar resultVar u4))))"
| "emit q (Semantic_and code) resultVar u = semantic_and_code code resultVar u"
| "emit q (Semantic_not code) resultVar u = semantic_not_code code resultVar u"
| "emit q (Optional e) resultVar u =
     (case UID_next (js ''result'') u of
        (expressionResultVar, u1) \<Rightarrow>
          andThenE (emit q e expressionResultVar u1)
            (\<lambda>expressionCode u2. optional_code expressionCode expressionResultVar resultVar u2))"
| "emit q (Zero_or_more e) resultVar u =
     (case UID_next (js ''result'') u of
        (expressionResultVar, u1) \<Rightarrow>
          andThenE (emit q e expressionResultVar u1)
            (\<lambda>expressionCode u2.
               zero_or_more_code expressionCode expressionResultVar resultVar u2))"
| "emit q (One_or_more e) resultVar u =
     (case UID_next (js ''result'') u of
        (expressionResultVar, u1) \<Rightarrow>
          andThenE (emit q e expressionResultVar u1)
            (\<lambda>expressionCode u2.
               one_or_more_code expressionCode expressionResultVar resultVar u2))"
| "emit q (Action e code) resultVar u =
     (case UID_next (js ''result'') u of
        (expressionResultVar, u1) \<Rightarrow>
          andThenE (emit q e expressionResultVar u1)
            (\<lambda>expressionCode u2.
               action_code expressionCode expressionResultVar code (formalParams e)
                 (actualParams expressionResultVar e) resultVar u2))"
| "emit q (Rule_ref nm) resultVar u = rule_ref_code nm resultVar u"
| "emit q (Literal val) resultVar u = literal_code val resultVar u"
| "emit q Any resultVar u = any_code resultVar u"
| "emit q (Class parts inverted rawText) resultVar u =
     class_code q parts inverted rawText resultVar u"
| "emit_alternatives q [] resultVar code u = Inr (code, u)"
| "emit_alternatives q (a # alts) resultVar code u =
     andThenE (emit_alternatives q alts resultVar code u)
       (\<lambda>code1 u1.
          case UID_next (js ''result'') u1 of
            (alternativeResultVar, u2) \<Rightarrow>
              andThenE (emit q a alternativeResultVar u2)
                (\<lambda>alternativeCode u3.
                   choice_alternative alternativeCode alternativeResultVar code1 resultVar u3))"
| "emit_elements q [] vars resultVar savedPosVar code u = Inr (code, u)"
| "emit_elements q (e # es) vars resultVar savedPosVar code u =
     (case vars of
        [] \<Rightarrow> Inl (Error (js ''Undefined variable: \"elementResultVar\".''))
      | v # vs \<Rightarrow>
          andThenE (emit_elements q es vs resultVar savedPosVar code u)
            (\<lambda>code1 u1.
               andThenE (emit q e v u1)
                 (\<lambda>elementCode u2.
                    sequence_element elementCode v code1 savedPosVar resultVar u2)))"








section \<open>What a grammar matches, without cache and failure bookkeeping\<close>

text \<open>
  The reference against which the generated parser is compared: the outcome of an
  expression at a position of the input, read off the same fragments with the packrat
  cache and the failure bookkeeping left out. An outcome is an exception, or the
  value of the result variable with the position reached.
\<close>

inductive matches ::
  "(jsstring \<times> rule) list \<Rightarrow> usercode \<Rightarrow> jsstring \<Rightarrow> expr \<Rightarrow> nat \<Rightarrow> error + jsvalue \<times> nat \<Rightarrow> bool"
  for rs :: "(jsstring \<times> rule) list" and run :: usercode and input :: jsstring
where
  Choice_none:
    "matches rs run input (Choice []) p (Inr (JNull, p))"
| Choice_throw:
    "matches rs run input a p (Inl err) \<Longrightarrow>
     matches rs run input (Choice (a # alts)) p (Inl err)"
| Choice_first:
    "matches rs run input a p (Inr (v, p')) \<Longrightarrow> v \<noteq> JNull \<Longrightarrow>
     matches rs run input (Choice (a # alts)) p (Inr (v, p'))"
| Choice_next:
    "matches rs run input a p (Inr (JNull, p')) \<Longrightarrow>
     matches rs run input (Choice alts) p' out \<Longrightarrow>
     matches rs run input (Choice (a # alts)) p out"
| Sequence_none:
    "matches rs run input (Sequence []) p (Inr (JArr [], p))"
| Sequence_throw:
    "matches rs run input e p (Inl err) \<Longrightarrow>
     matches rs run input (Sequence (e # es)) p (Inl err)"
| Sequence_null:
    "matches rs run input e p (Inr (JNull, p')) \<Longrightarrow>
     matches rs run input (Sequence (e # es)) p (Inr (JNull, p))"
| Sequence_rest_throw:
    "matches rs run input e p (Inr (v, p')) \<Longrightarrow> v \<noteq> JNull \<Longrightarrow>
     matches rs run input (Sequence es) p' (Inl err) \<Longrightarrow>
     matches rs run input (Sequence (e # es)) p (Inl err)"
| Sequence_rest_null:
    "matches rs run input e p (Inr (v, p')) \<Longrightarrow> v \<noteq> JNull \<Longrightarrow>
     matches rs run input (Sequence es) p' (Inr (JNull, p'')) \<Longrightarrow>
     matches rs run input (Sequence (e # es)) p (Inr (JNull, p))"
| Sequence_rest:
    "matches rs run input e p (Inr (v, p')) \<Longrightarrow> v \<noteq> JNull \<Longrightarrow>
     matches rs run input (Sequence es) p' (Inr (JArr vs, p'')) \<Longrightarrow>
     matches rs run input (Sequence (e # es)) p (Inr (JArr (v # vs), p''))"
| Labeled_same:
    "matches rs run input e p out \<Longrightarrow> matches rs run input (Labeled l e) p out"
| Simple_and_throw:
    "matches rs run input e p (Inl err) \<Longrightarrow> matches rs run input (Simple_and e) p (Inl err)"
| Simple_and_result:
    "matches rs run input e p (Inr (v, p')) \<Longrightarrow>
     matches rs run input (Simple_and e) p (Inr (if v \<noteq> JNull then (JStr [], p) else (JNull, p')))"
| Simple_not_throw:
    "matches rs run input e p (Inl err) \<Longrightarrow> matches rs run input (Simple_not e) p (Inl err)"
| Simple_not_result:
    "matches rs run input e p (Inr (v, p')) \<Longrightarrow>
     matches rs run input (Simple_not e) p (Inr (if v = JNull then (JStr [], p') else (JNull, p)))"
| Semantic_and_result:
    "matches rs run input (Semantic_and code) p
       (Inr (if truthy (run code []) then JStr [] else JNull, p))"
| Semantic_not_result:
    "matches rs run input (Semantic_not code) p
       (Inr (if truthy (run code []) then JNull else JStr [], p))"
| Optional_throw:
    "matches rs run input e p (Inl err) \<Longrightarrow> matches rs run input (Optional e) p (Inl err)"
| Optional_result:
    "matches rs run input e p (Inr (v, p')) \<Longrightarrow>
     matches rs run input (Optional e) p (Inr (if v \<noteq> JNull then v else JStr [], p'))"
| Zero_or_more_throw:
    "matches rs run input e p (Inl err) \<Longrightarrow> matches rs run input (Zero_or_more e) p (Inl err)"
| Zero_or_more_stop:
    "matches rs run input e p (Inr (JNull, p')) \<Longrightarrow>
     matches rs run input (Zero_or_more e) p (Inr (JArr [], p'))"
| Zero_or_more_rest_throw:
    "matches rs run input e p (Inr (v, p')) \<Longrightarrow> v \<noteq> JNull \<Longrightarrow>
     matches rs run input (Zero_or_more e) p' (Inl err) \<Longrightarrow>
     matches rs run input (Zero_or_more e) p (Inl err)"
| Zero_or_more_rest:
    "matches rs run input e p (Inr (v, p')) \<Longrightarrow> v \<noteq> JNull \<Longrightarrow>
     matches rs run input (Zero_or_more e) p' (Inr (JArr vs, p'')) \<Longrightarrow>
     matches rs run input (Zero_or_more e) p (Inr (JArr (v # vs), p''))"
| One_or_more_throw:
    "matches rs run input e p (Inl err) \<Longrightarrow> matches rs run input (One_or_more e) p (Inl err)"
| One_or_more_null:
    "matches rs run input e p (Inr (JNull, p')) \<Longrightarrow>
     matches rs run input (One_or_more e) p (Inr (JNull, p'))"
| One_or_more_rest_throw:
    "matches rs run input e p (Inr (v, p')) \<Longrightarrow> v \<noteq> JNull \<Longrightarrow>
     matches rs run input (Zero_or_more e) p' (Inl err) \<Longrightarrow>
     matches rs run input (One_or_more e) p (Inl err)"
| One_or_more_rest:
    "matches rs run input e p (Inr (v, p')) \<Longrightarrow> v \<noteq> JNull \<Longrightarrow>
     matches rs run input (Zero_or_more e) p' (Inr (JArr vs, p'')) \<Longrightarrow>
     matches rs run input (One_or_more e) p (Inr (JArr (v # vs), p''))"
| Action_throw:
    "matches rs run input e p (Inl err) \<Longrightarrow> matches rs run input (Action e code) p (Inl err)"
| Action_result:
    "matches rs run input e p (Inr (v, p')) \<Longrightarrow>
     matches rs run input (Action e code) p
       (Inr (if v \<noteq> JNull then run code (action_params e v) else JNull, p'))"
| Rule_ref_undefined:
    "parseFunction rs nm = None \<Longrightarrow>
     matches rs run input (Rule_ref nm) p
       (Inl (ReferenceError (js ''parse_'' @ nm @ js '' is not defined'')))"
| Rule_ref_body:
    "parseFunction rs nm = Some r \<Longrightarrow> matches rs run input (expression r) p out \<Longrightarrow>
     matches rs run input (Rule_ref nm) p out"
| Literal_result:
    "matches rs run input (Literal val) p
       (if substr input p (length val) = val then Inr (JStr val, p + length val)
        else Inr (JNull, p))"
| Any_result:
    "matches rs run input Any p
       (if length input > p then Inr (JStr (charAt input p), p + 1) else Inr (JNull, p))"
| Class_result:
    "matches rs run input (Class parts inverted rawText) p
       (if class_matches parts inverted (substr_from input p)
        then Inr (JStr (charAt input p), p + 1) else Inr (JNull, p))"

text \<open>
  A cache is coherent when each of its entries is what the rule of its key matches
  at the position of its key.
\<close>

definition cache_valid ::
  "(jsstring \<times> rule) list \<Rightarrow> usercode \<Rightarrow> jsstring \<Rightarrow> (jsstring \<rightharpoonup> cached) \<Rightarrow> bool" where
  "cache_valid rs run input c \<longleftrightarrow>
     (\<forall>key entry. c key = Some entry \<longrightarrow>
        (\<exists>r p. key = cacheKey (name r) p \<and> parseFunction rs (name r) = Some r \<and>
           matches rs run input (expression r) p (Inr (result entry, nextPos entry))))"

section \<open>Notions used to state the claims\<close>


text \<open>
  The line and column of an offset as the specification words them: \<open>\n\<close>, \<open>\r\<close>,
  U+2028 and U+2029 end a line, and a \<open>\n\<close> advances the line unless the
  character immediately before it is \<open>\r\<close>. \<open>prev\<close> is the character before
  \<open>ch\<close> (empty at offset 0).
\<close>

fun lineColumn_step :: "jsstring \<Rightarrow> jsstring \<Rightarrow> nat \<times> nat \<Rightarrow> nat \<times> nat" where
  "lineColumn_step prev ch (ln, col) =
     (if ch = [0x0A] then ((if prev = [0x0D] then ln else ln + 1), 1)
      else if ch = [0x0D] \<or> ch = [0x2028] \<or> ch = [0x2029] then (ln + 1, 1)
      else (ln, col + 1))"

definition lineColumn_spec :: "jsstring \<Rightarrow> nat \<Rightarrow> errorPosition" where
  "lineColumn_spec input offset =
     (case fold (\<lambda>i. lineColumn_step (if i = 0 then [] else charAt input (i - 1)) (charAt input i))
             [0 ..< offset] (1, 1)
      of (ln, col) \<Rightarrow> \<lparr>line = ln, column = col\<rparr>)"

text \<open>
  Re-indentation as the specification words it: the leading white space of the first
  line of the part is put before every later line.
\<close>

definition indentMultilinePart_spec :: "jsstring \<Rightarrow> jsstring" where
  "indentMultilinePart_spec part =
     (if 0x0A \<notin> set part then part
      else
        (case split 0x0A part of
           [] \<Rightarrow> []
         | l # ls \<Rightarrow> join [0x0A] (l # map (\<lambda>line. takeWhile isWhiteSpace l @ line) ls)))"

section \<open>Invariants of the shared variables\<close>

text \<open>
  How the failure bookkeeping may change while a fragment runs: the flag
  \<open>reportMatchFailures\<close> is what it was, the rightmost position has not moved
  left, and nothing was recorded while reporting was switched off.
\<close>

definition steady :: "state \<Rightarrow> state \<Rightarrow> bool" where
  "steady s s' \<longleftrightarrow>
     reportMatchFailures s' = reportMatchFailures s \<and>
     rightmostMatchFailuresPos s \<le> rightmostMatchFailuresPos s' \<and>
     (\<not> reportMatchFailures s \<longrightarrow>
        rightmostMatchFailuresPos s' = rightmostMatchFailuresPos s \<and>
        rightmostMatchFailuresExpected s' = rightmostMatchFailuresExpected s)"

definition steady_executor :: "executor \<Rightarrow> bool" where
  "steady_executor ex \<longleftrightarrow> (\<forall>e s v s'. ex e s = Some (Inr (v, s')) \<longrightarrow> steady s s')"

text \<open>
  An outcome of running a fragment agrees with the reference: it is the outcome that
  the expression has at the position where the fragment started, the cache is still
  coherent, and no entry of the cache was lost or changed.
\<close>

definition agrees ::
  "(jsstring \<times> rule) list \<Rightarrow> usercode \<Rightarrow> jsstring \<Rightarrow> expr \<Rightarrow> state
     \<Rightarrow> error + jsvalue \<times> state \<Rightarrow> bool" where
  "agrees rs run input e s out \<longleftrightarrow>
     (case out of
        Inl err \<Rightarrow> matches rs run input e (pos s) (Inl err)
      | Inr (v, s') \<Rightarrow>
          matches rs run input e (pos s) (Inr (v, pos s')) \<and>
          cache_valid rs run input (cache s') \<and> cache s \<subseteq>\<^sub>m cache s')"

definition sound_executor ::
  "(jsstring \<times> rule) list \<Rightarrow> usercode \<Rightarrow> jsstring \<Rightarrow> executor \<Rightarrow> bool" where
  "sound_executor rs run input ex \<longleftrightarrow>
     (\<forall>e s out. cache_valid rs run input (cache s) \<longrightarrow> ex e s = Some out \<longrightarrow>
        agrees rs run input e s out)"


section \<open>Example grammars\<close>

text \<open>User code that returns \<open>null\<close>, whatever it is given.\<close>

definition returns_null :: usercode where
  "returns_null code bindings = JNull"

text \<open>The grammar \<open>start = .\<close> and its only rule.\<close>

definition rule_any :: rule where
  "rule_any = \<lparr>name = js ''start'', displayName = None, expression = Any\<rparr>"

definition rules_any :: "(jsstring \<times> rule) list" where
  "rules_any = [(js ''start'', rule_any)]"

text \<open>A rule with a display name: \<open>start "letter" = "a"\<close>.\<close>

definition rule_letter :: rule where
  "rule_letter = \<lparr>name = js ''start'', displayName = Some (js ''letter''),
                   expression = Literal (js ''a'')\<rparr>"

text \<open>The grammar \<open>start = "a" { return null; }\<close>.\<close>

definition rule_action :: rule where
  "rule_action = \<lparr>name = js ''start'', displayName = None,
                   expression = Action (Literal (js ''a'')) (js ''return null;'')\<rparr>"

definition grammar_action :: grammar where
  "grammar_action = \<lparr>initializer = None, startRule = js ''start'',
                      rules = [(js ''start'', rule_action)]\<rparr>"

text \<open>The grammar \<open>start = . . "x"\<close>.\<close>

definition rule_any_any_x :: rule where
  "rule_any_any_x = \<lparr>name = js ''start'', displayName = None,
                      expression = Sequence [Any, Any, Literal (js ''x'')]\<rparr>"

definition grammar_any_any_x :: grammar where
  "grammar_any_any_x = \<lparr>initializer = None, startRule = js ''start'',
                         rules = [(js ''start'', rule_any_any_x)]\<rparr>"






section \<open>Basic facts\<close>


lemma andThen_simps [simp]:
  "andThen None f = None"
  "andThen (Some (Inl e)) f = Some (Inl e)"
  "andThen (Some (Inr x)) f = f x"
  by (simp_all add: andThen_def)

lemma andThen_Inr_iff:
  "andThen m f = Some (Inr y) \<longleftrightarrow> (\<exists>x. m = Some (Inr x) \<and> f x = Some (Inr y))"
  by (auto simp: andThen_def split: option.splits sum.splits)

lemma andThen_Some_cases:
  assumes "andThen m f = Some r"
  obtains (thrown) e where "m = Some (Inl e)" and "r = Inl e"
        | (returned) x where "m = Some (Inr x)" and "f x = Some r"
  using assms by (auto simp: andThen_def split: option.splits sum.splits)


lemma steady_refl [simp]: "steady s s"
  by (simp add: steady_def)

lemma steady_trans: "steady s s' \<Longrightarrow> steady s' s'' \<Longrightarrow> steady s s''"
  by (auto simp: steady_def)

lemma steady_pos [simp]: "steady s (s'\<lparr>pos := p\<rparr>) = steady s s'"
  by (simp add: steady_def)

lemma steady_cache [simp]: "steady s (s'\<lparr>cache := c\<rparr>) = steady s s'"
  by (simp add: steady_def)

lemma steady_matchFailed: "reportMatchFailures s \<Longrightarrow> steady s (matchFailed f s)"
  by (simp add: steady_def matchFailed_def Let_def)

lemma steady_reportFailure [simp]: "steady s (reportFailure f s)"
  by (simp add: reportFailure_def steady_matchFailed)

lemma steady_restore:
  "steady (s\<lparr>reportMatchFailures := False\<rparr>) s1 \<Longrightarrow>
   steady s (s1\<lparr>reportMatchFailures := reportMatchFailures s\<rparr>)"
  by (auto simp: steady_def)


lemma steady_executorD:
  "steady_executor ex \<Longrightarrow> ex e s = Some (Inr (v, s')) \<Longrightarrow> steady s s'"
  by (auto simp: steady_executor_def)

lemma choice_alternatives_steady:
  assumes "steady_executor ex"
  shows "choice_alternatives ex alts s = Some (Inr (v, s')) \<Longrightarrow> steady s s'"
proof (induction alts arbitrary: s)
  case Nil
  then show ?case by (simp add: ok_def)
next
  case (Cons a alts)
  from Cons.prems obtain w t where a: "ex a s = Some (Inr (w, t))"
    and rest: "(if w \<noteq> JNull then ok w t else choice_alternatives ex alts t) = Some (Inr (v, s'))"
    by (auto simp: andThen_Inr_iff)
  have st: "steady s t" using assms a by (rule steady_executorD)
  show ?case
  proof (cases "w = JNull")
    case True
    with rest have "choice_alternatives ex alts t = Some (Inr (v, s'))" by simp
    then have "steady t s'" by (rule Cons.IH)
    with st show ?thesis by (rule steady_trans)
  next
    case False
    with rest st show ?thesis by (simp add: ok_def)
  qed
qed

lemma sequence_elements_steady:
  assumes "steady_executor ex"
  shows "sequence_elements ex p es rs s = Some (Inr (v, s')) \<Longrightarrow> steady s s'"
proof (induction es arbitrary: s rs)
  case Nil
  then show ?case by (simp add: ok_def)
next
  case (Cons a es)
  from Cons.prems obtain w t where a: "ex a s = Some (Inr (w, t))"
    and rest: "(if w \<noteq> JNull then sequence_elements ex p es (rs @ [w]) t
                else ok JNull (t\<lparr>pos := p\<rparr>)) = Some (Inr (v, s'))"
    by (auto simp: andThen_Inr_iff)
  have st: "steady s t" using assms a by (rule steady_executorD)
  show ?case
  proof (cases "w = JNull")
    case False
    with rest have "sequence_elements ex p es (rs @ [w]) t = Some (Inr (v, s'))" by simp
    then have "steady t s'" by (rule Cons.IH)
    with st show ?thesis by (rule steady_trans)
  next
    case True
    with rest st show ?thesis by (auto simp: ok_def)
  qed
qed

lemma while_push_steady:
  assumes "\<And>s v s'. body s = Some (Inr (v, s')) \<Longrightarrow> steady s s'"
  shows "while_push k body rs w s = Some (Inr (v, s')) \<Longrightarrow> steady s s'"
proof (induction k arbitrary: s rs w)
  case 0
  then show ?case by simp
next
  case (Suc k)
  show ?case
  proof (cases "w = JNull")
    case True
    with Suc.prems show ?thesis by (simp add: ok_def)
  next
    case False
    with Suc.prems obtain w' t where b: "body s = Some (Inr (w', t))"
      and rest: "while_push k body (rs @ [w]) w' t = Some (Inr (v, s'))"
      by (auto simp: andThen_Inr_iff)
    from b have "steady s t" by (rule assms)
    moreover from rest have "steady t s'" by (rule Suc.IH)
    ultimately show ?thesis by (rule steady_trans)
  qed
qed

lemma parse_rule_steady:
  assumes "steady_executor ex"
  shows "parse_rule ex r s = Some (Inr (v, s')) \<Longrightarrow> steady s s'"
proof -
  assume p: "parse_rule ex r s = Some (Inr (v, s'))"
  show ?thesis
  proof (cases "cache s (cacheKey (name r) (pos s))")
    case (Some c)
    with p show ?thesis by (auto simp: parse_rule_def ok_def)
  next
    case None
    show ?thesis
    proof (cases "displayName r")
      case dn: None
      with p None obtain s2 where b: "ex (expression r) s = Some (Inr (v, s2))"
        and s': "s' = s2\<lparr>cache := (cache s2)(cacheKey (name r) (pos s) \<mapsto> \<lparr>nextPos = pos s2, result = v\<rparr>)\<rparr>"
        by (auto simp: parse_rule_def ok_def andThen_Inr_iff Let_def)
      from assms b have "steady s s2" by (rule steady_executorD)
      with s' show ?thesis by simp
    next
      case dn: (Some d)
      with p None obtain s2 where b: "ex (expression r) (s\<lparr>reportMatchFailures := False\<rparr>) = Some (Inr (v, s2))"
        and s': "steady s s' = steady s
           (if reportMatchFailures s \<and> v = JNull
            then matchFailed d (s2\<lparr>reportMatchFailures := reportMatchFailures s\<rparr>)
            else s2\<lparr>reportMatchFailures := reportMatchFailures s\<rparr>)"
        by (auto simp: parse_rule_def ok_def andThen_Inr_iff Let_def)
      from assms b have "steady (s\<lparr>reportMatchFailures := False\<rparr>) s2" by (rule steady_executorD)
      then have r: "steady s (s2\<lparr>reportMatchFailures := reportMatchFailures s\<rparr>)"
        by (rule steady_restore)
      show ?thesis
      proof (cases "reportMatchFailures s \<and> v = JNull")
        case True
        then have "steady (s2\<lparr>reportMatchFailures := reportMatchFailures s\<rparr>)
                    (matchFailed d (s2\<lparr>reportMatchFailures := reportMatchFailures s\<rparr>))"
          by (intro steady_matchFailed) simp
        with r have "steady s (matchFailed d (s2\<lparr>reportMatchFailures := reportMatchFailures s\<rparr>))"
          by (rule steady_trans)
        with True s' show ?thesis by simp
      next
        case False
        with r s' show ?thesis by auto
      qed
    qed
  qed
qed

lemma fragment_steady:
  assumes ex: "steady_executor ex"
  shows "fragment rs run input k ex e s = Some (Inr (v, s')) \<Longrightarrow> steady s s'"
proof (cases e)
  case (Choice alts)
  then show "fragment rs run input k ex e s = Some (Inr (v, s')) \<Longrightarrow> steady s s'"
    using choice_alternatives_steady [OF ex] by simp
next
  case (Sequence es)
  then show "fragment rs run input k ex e s = Some (Inr (v, s')) \<Longrightarrow> steady s s'"
    using sequence_elements_steady [OF ex] by simp
next
  case (Simple_and e1)
  assume "fragment rs run input k ex e s = Some (Inr (v, s'))"
  with Simple_and obtain w s1 where b: "ex e1 (s\<lparr>reportMatchFailures := False\<rparr>) = Some (Inr (w, s1))"
    and s': "steady s s' = steady s (s1\<lparr>reportMatchFailures := reportMatchFailures s\<rparr>)"
    by (auto simp: andThen_Inr_iff Let_def ok_def split: if_splits)
  from ex b have "steady (s\<lparr>reportMatchFailures := False\<rparr>) s1" by (rule steady_executorD)
  then show "steady s s'" unfolding s' by (rule steady_restore)
next
  case (Simple_not e1)
  assume "fragment rs run input k ex e s = Some (Inr (v, s'))"
  with Simple_not obtain w s1 where b: "ex e1 (s\<lparr>reportMatchFailures := False\<rparr>) = Some (Inr (w, s1))"
    and s': "steady s s' = steady s (s1\<lparr>reportMatchFailures := reportMatchFailures s\<rparr>)"
    by (auto simp: andThen_Inr_iff Let_def ok_def split: if_splits)
  from ex b have "steady (s\<lparr>reportMatchFailures := False\<rparr>) s1" by (rule steady_executorD)
  then show "steady s s'" unfolding s' by (rule steady_restore)
next
  case (Zero_or_more e1)
  assume "fragment rs run input k ex e s = Some (Inr (v, s'))"
  with Zero_or_more obtain w s1 where b: "ex e1 s = Some (Inr (w, s1))"
    and l: "while_push k (ex e1) [] w s1 = Some (Inr (v, s'))"
    by (auto simp: andThen_Inr_iff)
  from ex b have "steady s s1" by (rule steady_executorD)
  moreover from l have "steady s1 s'"
    by (rule while_push_steady [rotated]) (rule steady_executorD [OF ex])
  ultimately show "steady s s'" by (rule steady_trans)
next
  case (One_or_more e1)
  assume "fragment rs run input k ex e s = Some (Inr (v, s'))"
  with One_or_more obtain w s1 where b: "ex e1 s = Some (Inr (w, s1))"
    and l: "(if w \<noteq> JNull then while_push k (ex e1) [] w s1 else ok JNull s1) = Some (Inr (v, s'))"
    by (auto simp: andThen_Inr_iff)
  from ex b have st: "steady s s1" by (rule steady_executorD)
  show "steady s s'"
  proof (cases "w = JNull")
    case True
    with l st show ?thesis by (simp add: ok_def)
  next
    case False
    with l have "while_push k (ex e1) [] w s1 = Some (Inr (v, s'))" by simp
    then have "steady s1 s'"
      by (rule while_push_steady [rotated]) (rule steady_executorD [OF ex])
    with st show ?thesis by (rule steady_trans)
  qed
next
  case (Rule_ref nm)
  then show "fragment rs run input k ex e s = Some (Inr (v, s')) \<Longrightarrow> steady s s'"
    using parse_rule_steady [OF ex] by (auto split: option.splits)
qed (use ex in \<open>auto simp: andThen_Inr_iff ok_def dest: steady_executorD split: if_splits\<close>)

lemma exec_steady_executor: "steady_executor (exec rs run input n)"
proof (induction n)
  case 0
  show ?case by (simp add: steady_executor_def)
next
  case (Suc n)
  show ?case
    unfolding steady_executor_def
  proof (intro allI impI)
    fix e s v s'
    assume "exec rs run input (Suc n) e s = Some (Inr (v, s'))"
    then have "fragment rs run input n (exec rs run input n) e s = Some (Inr (v, s'))"
      by simp
    then show "steady s s'" by (rule fragment_steady [OF Suc])
  qed
qed

lemma exec_steady: "exec rs run input n e s = Some (Inr (v, s')) \<Longrightarrow> steady s s'"
  using exec_steady_executor by (rule steady_executorD)


section \<open>Cache keys\<close>


lemma js_simps: "js [] = []" "js (c # cs) = of_char c # js cs"
  by (simp_all add: js_def)

lemma unat_digit: "n < 10 \<Longrightarrow> unat (of_nat (48 + n) :: jschar) = 48 + n"
  by (rule of_nat_inverse [OF refl]) simp

lemma digit_ne_at: "n < 10 \<Longrightarrow> (of_nat (48 + n) :: jschar) \<noteq> 64"
proof
  assume n: "n < 10" and "(of_nat (48 + n) :: jschar) = 64"
  then have "unat (of_nat (48 + n) :: jschar) = unat (64 :: jschar)" by (simp only:)
  with n show False by (simp only: unat_digit) simp
qed

lemma digit_inj:
  assumes "m < 10" "n < 10" "(of_nat (48 + m) :: jschar) = of_nat (48 + n)"
  shows "m = n"
proof -
  from assms(3) have "unat (of_nat (48 + m) :: jschar) = unat (of_nat (48 + n) :: jschar)"
    by (simp only:)
  with assms(1,2) show ?thesis by (simp only: unat_digit)
qed

lemma dec_not_Nil [simp]: "dec n \<noteq> []" "[] \<noteq> dec n"
  by (subst dec.simps, simp)+

lemma last_dec: "last (dec n) = of_nat (48 + n mod 10)"
  by (subst dec.simps) simp

lemma butlast_dec: "butlast (dec n) = (if n < 10 then [] else dec (n div 10))"
  by (subst dec.simps) simp

lemma at_notin_dec: "64 \<notin> set (dec n)"
proof (induction n rule: dec.induct)
  case (1 n)
  show ?case
  proof (cases "n < 10")
    case True
    then show ?thesis using digit_ne_at [of n] by (subst dec.simps) auto
  next
    case False
    then show ?thesis using 1 digit_ne_at [of "n mod 10"] by (subst dec.simps) auto
  qed
qed

lemma dec_inj: "dec m = dec n \<Longrightarrow> m = n"
proof (induction m arbitrary: n rule: dec.induct)
  case (1 m)
  from "1.prems" have l: "last (dec m) = last (dec n)" and b: "butlast (dec m) = butlast (dec n)"
    by simp_all
  from l have "(of_nat (48 + m mod 10) :: jschar) = of_nat (48 + n mod 10)"
    by (simp only: last_dec)
  then have md: "m mod 10 = n mod 10"
    by (rule digit_inj [rotated 2]) simp_all
  show ?case
  proof (cases "m < 10")
    case True
    with b have "n < 10" by (auto simp: butlast_dec split: if_splits)
    with True md show ?thesis by simp
  next
    case False
    with b have n: "\<not> n < 10" and d: "dec (m div 10) = dec (n div 10)"
      by (auto simp: butlast_dec split: if_splits)
    from False d have "m div 10 = n div 10" by (rule "1.IH")
    with md show ?thesis by (metis div_mult_mod_eq)
  qed
qed

lemma split_at_last:
  assumes "xs @ c # ys = xs' @ c # ys'" and "c \<notin> set ys" and "c \<notin> set ys'"
  shows "xs = xs' \<and> ys = ys'"
proof -
  have "takeWhile (\<lambda>x. x \<noteq> c) (rev (xs @ c # ys)) = rev ys"
    using assms(2) by (auto simp: takeWhile_tail)
  moreover have "takeWhile (\<lambda>x. x \<noteq> c) (rev (xs' @ c # ys')) = rev ys'"
    using assms(3) by (auto simp: takeWhile_tail)
  ultimately have "rev ys = rev ys'" using assms(1) by simp
  then have "ys = ys'" by simp
  with assms(1) show ?thesis by simp
qed

lemma cacheKey_inj: "cacheKey a p = cacheKey b q \<Longrightarrow> a = b \<and> p = q"
proof -
  assume "cacheKey a p = cacheKey b q"
  then have "a @ 64 # dec p = b @ 64 # dec q" by (simp add: cacheKey_def js_simps)
  then have "a = b \<and> dec p = dec q"
    by (rule split_at_last) (rule at_notin_dec)+
  then show ?thesis by (auto dest: dec_inj)
qed

lemma parseFunction_name: "parseFunction rs nm = Some r \<Longrightarrow> name r = nm"
proof -
  assume a: "parseFunction rs nm = Some r"
  then obtain f fs where f: "filter (\<lambda>r. name r = nm) (map snd rs) = f # fs" and r: "r = last (f # fs)"
    by (auto simp: parseFunction_def split: list.splits)
  have "r \<in> set (f # fs)" unfolding r by (rule last_in_set) simp
  then have "r \<in> set (filter (\<lambda>r. name r = nm) (map snd rs))" by (simp only: f)
  then show ?thesis by simp
qed


section \<open>The reference is deterministic\<close>


inductive_cases Choice_nilE: "matches rs run input (Choice []) p out"
inductive_cases Choice_consE: "matches rs run input (Choice (a # alts)) p out"
inductive_cases Sequence_nilE: "matches rs run input (Sequence []) p out"
inductive_cases Sequence_consE: "matches rs run input (Sequence (e # es)) p out"
inductive_cases LabeledE: "matches rs run input (Labeled l e) p out"
inductive_cases Simple_andE: "matches rs run input (Simple_and e) p out"
inductive_cases Simple_notE: "matches rs run input (Simple_not e) p out"
inductive_cases Semantic_andE: "matches rs run input (Semantic_and c) p out"
inductive_cases Semantic_notE: "matches rs run input (Semantic_not c) p out"
inductive_cases OptionalE: "matches rs run input (Optional e) p out"
inductive_cases Zero_or_moreE: "matches rs run input (Zero_or_more e) p out"
inductive_cases One_or_moreE: "matches rs run input (One_or_more e) p out"
inductive_cases ActionE: "matches rs run input (Action e c) p out"
inductive_cases Rule_refE: "matches rs run input (Rule_ref nm) p out"
inductive_cases LiteralE: "matches rs run input (Literal val) p out"
inductive_cases AnyE: "matches rs run input Any p out"
inductive_cases ClassE: "matches rs run input (Class parts inverted raw) p out"

lemmas matchesE = Choice_nilE Choice_consE Sequence_nilE Sequence_consE LabeledE Simple_andE
  Simple_notE Semantic_andE Semantic_notE OptionalE Zero_or_moreE One_or_moreE ActionE
  Rule_refE LiteralE AnyE ClassE

lemma matches_deterministic:
  "matches rs run input e p out \<Longrightarrow> matches rs run input e p out' \<Longrightarrow> out' = out"
proof (induction arbitrary: out' rule: matches.induct)
  case (Choice_none p)
  then show ?case by (auto elim: Choice_nilE)
next
  case (Choice_throw a p err alts)
  from Choice_throw.prems show ?case
    by (rule Choice_consE) (use Choice_throw.IH in \<open>auto\<close>)
next
  case (Choice_first a p v p' alts)
  from Choice_first.prems show ?case
    by (rule Choice_consE) (use Choice_first.hyps in \<open>auto dest!: Choice_first.IH\<close>)
next
  case (Choice_next a p p' alts out)
  from Choice_next.prems show ?case
    by (rule Choice_consE) (use Choice_next.IH in \<open>auto\<close>)
next
  case (Sequence_none p)
  then show ?case by (auto elim: Sequence_nilE)
next
  case (Sequence_throw e p err es)
  from Sequence_throw.prems show ?case
    by (rule Sequence_consE) (use Sequence_throw.IH in \<open>auto\<close>)
next
  case (Sequence_null e p p' es)
  from Sequence_null.prems show ?case
    by (rule Sequence_consE) (use Sequence_null.IH in \<open>auto\<close>)
next
  case (Sequence_rest_throw e p v p' es err)
  from Sequence_rest_throw.prems show ?case
    by (rule Sequence_consE) (use Sequence_rest_throw.hyps in \<open>auto dest!: Sequence_rest_throw.IH\<close>)
next
  case (Sequence_rest_null e p v p' es p'')
  from Sequence_rest_null.prems show ?case
    by (rule Sequence_consE) (use Sequence_rest_null.hyps in \<open>auto dest!: Sequence_rest_null.IH\<close>)
next
  case (Sequence_rest e p v p' es vs p'')
  from Sequence_rest.prems show ?case
    by (rule Sequence_consE) (use Sequence_rest.hyps in \<open>auto dest!: Sequence_rest.IH\<close>)
next
  case (Labeled_same e p out l)
  from Labeled_same.prems show ?case
    by (rule LabeledE) (rule Labeled_same.IH)
next
  case (Simple_and_throw e p err)
  from Simple_and_throw.prems show ?case
    by (rule Simple_andE) (use Simple_and_throw.IH in \<open>auto\<close>)
next
  case (Simple_and_result e p v p')
  from Simple_and_result.prems show ?case
    by (rule Simple_andE) (use Simple_and_result.IH in \<open>auto\<close>)
next
  case (Simple_not_throw e p err)
  from Simple_not_throw.prems show ?case
    by (rule Simple_notE) (use Simple_not_throw.IH in \<open>auto\<close>)
next
  case (Simple_not_result e p v p')
  from Simple_not_result.prems show ?case
    by (rule Simple_notE) (use Simple_not_result.IH in \<open>auto\<close>)
next
  case (Semantic_and_result code p)
  then show ?case by (auto elim: Semantic_andE)
next
  case (Semantic_not_result code p)
  then show ?case by (auto elim: Semantic_notE)
next
  case (Optional_throw e p err)
  from Optional_throw.prems show ?case
    by (rule OptionalE) (use Optional_throw.IH in \<open>auto\<close>)
next
  case (Optional_result e p v p')
  from Optional_result.prems show ?case
    by (rule OptionalE) (use Optional_result.IH in \<open>auto\<close>)
next
  case (Zero_or_more_throw e p err)
  from Zero_or_more_throw.prems show ?case
    by (rule Zero_or_moreE) (use Zero_or_more_throw.IH in \<open>auto\<close>)
next
  case (Zero_or_more_stop e p p')
  from Zero_or_more_stop.prems show ?case
    by (rule Zero_or_moreE) (use Zero_or_more_stop.IH in \<open>auto\<close>)
next
  case (Zero_or_more_rest_throw e p v p' err)
  from Zero_or_more_rest_throw.prems show ?case
    by (rule Zero_or_moreE) (use Zero_or_more_rest_throw.hyps in \<open>auto dest!: Zero_or_more_rest_throw.IH\<close>)
next
  case (Zero_or_more_rest e p v p' vs p'')
  from Zero_or_more_rest.prems show ?case
    by (rule Zero_or_moreE) (use Zero_or_more_rest.hyps in \<open>auto dest!: Zero_or_more_rest.IH\<close>)
next
  case (One_or_more_throw e p err)
  from One_or_more_throw.prems show ?case
    by (rule One_or_moreE) (use One_or_more_throw.IH in \<open>auto\<close>)
next
  case (One_or_more_null e p p')
  from One_or_more_null.prems show ?case
    by (rule One_or_moreE) (use One_or_more_null.IH in \<open>auto\<close>)
next
  case (One_or_more_rest_throw e p v p' err)
  from One_or_more_rest_throw.prems show ?case
    by (rule One_or_moreE) (use One_or_more_rest_throw.hyps in \<open>auto dest!: One_or_more_rest_throw.IH\<close>)
next
  case (One_or_more_rest e p v p' vs p'')
  from One_or_more_rest.prems show ?case
    by (rule One_or_moreE) (use One_or_more_rest.hyps in \<open>auto dest!: One_or_more_rest.IH\<close>)
next
  case (Action_throw e p err code)
  from Action_throw.prems show ?case
    by (rule ActionE) (use Action_throw.IH in \<open>auto\<close>)
next
  case (Action_result e p v p' code)
  from Action_result.prems show ?case
    by (rule ActionE) (use Action_result.IH in \<open>auto\<close>)
next
  case (Rule_ref_undefined nm p)
  from Rule_ref_undefined.prems show ?case
    by (rule Rule_refE) (use Rule_ref_undefined.hyps in \<open>auto\<close>)
next
  case (Rule_ref_body nm r p out)
  from Rule_ref_body.prems show ?case
    by (rule Rule_refE) (use Rule_ref_body.hyps in \<open>auto dest!: Rule_ref_body.IH\<close>)
next
  case (Literal_result val p)
  then show ?case by (auto elim: LiteralE)
next
  case (Any_result p)
  then show ?case by (auto elim: AnyE)
next
  case (Class_result parts inverted rawText p)
  then show ?case by (auto elim: ClassE)
qed


section \<open>The fragments agree with the reference\<close>


lemma agrees_Inl [simp]:
  "agrees rs run input e s (Inl err) = matches rs run input e (pos s) (Inl err)"
  by (simp add: agrees_def)

lemma agrees_Inr [simp]:
  "agrees rs run input e s (Inr (v, s')) =
     (matches rs run input e (pos s) (Inr (v, pos s')) \<and>
      cache_valid rs run input (cache s') \<and> cache s \<subseteq>\<^sub>m cache s')"
  by (simp add: agrees_def)

lemma sound_executorD:
  "sound_executor rs run input ex \<Longrightarrow> cache_valid rs run input (cache s) \<Longrightarrow>
   ex e s = Some out \<Longrightarrow> agrees rs run input e s out"
  by (auto simp: sound_executor_def)

lemma cache_valid_hit:
  assumes "cache_valid rs run input c" and "c (cacheKey (name r) p) = Some entry"
    and "parseFunction rs (name r) = Some r"
  shows "matches rs run input (expression r) p (Inr (result entry, nextPos entry))"
proof -
  from assms(1,2) obtain r' p' where k: "cacheKey (name r) p = cacheKey (name r') p'"
    and f: "parseFunction rs (name r') = Some r'"
    and m: "matches rs run input (expression r') p' (Inr (result entry, nextPos entry))"
    unfolding cache_valid_def by blast
  from k have "name r = name r'" and "p = p'" by (auto dest: cacheKey_inj)
  with f assms(3) m show ?thesis by simp
qed

lemma choice_alternatives_sound:
  assumes ex: "sound_executor rs run input ex"
  shows "cache_valid rs run input (cache s) \<Longrightarrow> choice_alternatives ex alts s = Some out \<Longrightarrow>
         agrees rs run input (Choice alts) s out"
proof (induction alts arbitrary: s)
  case Nil
  then show ?case by (auto simp: ok_def intro: matches.Choice_none)
next
  case (Cons a alts)
  from Cons.prems(2) have "andThen (ex a s) (\<lambda>(v, s').
       if v \<noteq> JNull then ok v s' else choice_alternatives ex alts s') = Some out"
    by simp
  then show ?case
  proof (cases rule: andThen_Some_cases)
    case (thrown err)
    with ex Cons.prems(1) have "agrees rs run input a s (Inl err)"
      by (auto dest: sound_executorD)
    with thrown show ?thesis by (auto intro: matches.Choice_throw)
  next
    case (returned x)
    obtain w t where x: "x = (w, t)" by (cases x)
    with ex Cons.prems(1) returned have a: "matches rs run input a (pos s) (Inr (w, pos t))"
      and vt: "cache_valid rs run input (cache t)" and le: "cache s \<subseteq>\<^sub>m cache t"
      by (auto dest: sound_executorD)
    show ?thesis
    proof (cases "w = JNull")
      case False
      with returned x have "out = Inr (w, t)" by (simp add: ok_def)
      with a vt le False show ?thesis by (auto intro: matches.Choice_first)
    next
      case True
      with returned x have "choice_alternatives ex alts t = Some out" by simp
      with vt have r: "agrees rs run input (Choice alts) t out" by (rule Cons.IH)
      show ?thesis
      proof (cases out)
        case (Inl err)
        with r a True show ?thesis by (auto intro: matches.Choice_next)
      next
        case (Inr y)
        obtain v s' where "y = (v, s')" by (cases y)
        with Inr r a True le show ?thesis
          by (auto intro: matches.Choice_next map_le_trans)
      qed
    qed
  qed
qed


lemma sequence_elements_sound:
  assumes ex: "sound_executor rs run input ex"
  shows "cache_valid rs run input (cache s) \<Longrightarrow> sequence_elements ex p0 es acc s = Some out \<Longrightarrow>
         (case out of
            Inl err \<Rightarrow> matches rs run input (Sequence es) (pos s) (Inl err)
          | Inr (v, s') \<Rightarrow>
              cache_valid rs run input (cache s') \<and> cache s \<subseteq>\<^sub>m cache s' \<and>
              ((\<exists>vs. v = JArr (acc @ vs) \<and>
                  matches rs run input (Sequence es) (pos s) (Inr (JArr vs, pos s'))) \<or>
               (v = JNull \<and> pos s' = p0 \<and>
                  matches rs run input (Sequence es) (pos s) (Inr (JNull, pos s)))))"
proof (induction es arbitrary: s acc)
  case Nil
  then show ?case by (auto simp: ok_def intro: matches.Sequence_none)
next
  case (Cons a es)
  from Cons.prems(2) have "andThen (ex a s) (\<lambda>(v, s').
       if v \<noteq> JNull then sequence_elements ex p0 es (acc @ [v]) s'
       else ok JNull (s'\<lparr>pos := p0\<rparr>)) = Some out"
    by simp
  then show ?case
  proof (cases rule: andThen_Some_cases)
    case (thrown err)
    with ex Cons.prems(1) have "agrees rs run input a s (Inl err)"
      by (auto dest: sound_executorD)
    with thrown show ?thesis by (auto intro: matches.Sequence_throw)
  next
    case (returned x)
    obtain w t where x: "x = (w, t)" by (cases x)
    with ex Cons.prems(1) returned have a: "matches rs run input a (pos s) (Inr (w, pos t))"
      and vt: "cache_valid rs run input (cache t)" and le: "cache s \<subseteq>\<^sub>m cache t"
      by (auto dest: sound_executorD)
    show ?thesis
    proof (cases "w = JNull")
      case True
      with returned x have "out = Inr (JNull, t\<lparr>pos := p0\<rparr>)" by (simp add: ok_def)
      with a vt le True show ?thesis by (auto intro: matches.Sequence_null)
    next
      case False
      with returned x have "sequence_elements ex p0 es (acc @ [w]) t = Some out" by simp
      with vt have r: "case out of
            Inl err \<Rightarrow> matches rs run input (Sequence es) (pos t) (Inl err)
          | Inr (v, s') \<Rightarrow>
              cache_valid rs run input (cache s') \<and> cache t \<subseteq>\<^sub>m cache s' \<and>
              ((\<exists>vs. v = JArr ((acc @ [w]) @ vs) \<and>
                  matches rs run input (Sequence es) (pos t) (Inr (JArr vs, pos s'))) \<or>
               (v = JNull \<and> pos s' = p0 \<and>
                  matches rs run input (Sequence es) (pos t) (Inr (JNull, pos t))))"
        by (rule Cons.IH)
      show ?thesis
      proof (cases out)
        case (Inl err)
        with r a False show ?thesis by (auto intro: matches.Sequence_rest_throw)
      next
        case (Inr y)
        obtain v s' where y: "y = (v, s')" by (cases y)
        from r Inr y have vs': "cache_valid rs run input (cache s')" and le': "cache t \<subseteq>\<^sub>m cache s'"
          by auto
        from le le' have le'': "cache s \<subseteq>\<^sub>m cache s'" by (rule map_le_trans)
        from r Inr y consider
          (arr) vs where "v = JArr ((acc @ [w]) @ vs)"
            "matches rs run input (Sequence es) (pos t) (Inr (JArr vs, pos s'))"
          | (null) "v = JNull" "pos s' = p0"
            "matches rs run input (Sequence es) (pos t) (Inr (JNull, pos t))"
          by auto
        then show ?thesis
        proof cases
          case arr
          from a False arr(2)
          have "matches rs run input (Sequence (a # es)) (pos s) (Inr (JArr (w # vs), pos s'))"
            by (rule matches.Sequence_rest)
          with arr(1) Inr y vs' le'' show ?thesis by auto
        next
          case null
          from a False null(3)
          have "matches rs run input (Sequence (a # es)) (pos s) (Inr (JNull, pos s))"
            by (rule matches.Sequence_rest_null)
          with null(1,2) Inr y vs' le'' show ?thesis by auto
        qed
      qed
    qed
  qed
qed

lemma while_push_sound:
  assumes ex: "sound_executor rs run input ex"
  shows "cache_valid rs run input (cache s) \<Longrightarrow> w \<noteq> JNull \<Longrightarrow>
         while_push k (ex e) acc w s = Some out \<Longrightarrow>
         (case out of
            Inl err \<Rightarrow> matches rs run input (Zero_or_more e) (pos s) (Inl err)
          | Inr (v, s') \<Rightarrow>
              cache_valid rs run input (cache s') \<and> cache s \<subseteq>\<^sub>m cache s' \<and>
              (\<exists>vs. v = JArr (acc @ w # vs) \<and>
                 matches rs run input (Zero_or_more e) (pos s) (Inr (JArr vs, pos s'))))"
proof (induction k arbitrary: s acc w)
  case 0
  then show ?case by simp
next
  case (Suc k)
  from Suc.prems(2,3)
  have "andThen (ex e s) (\<lambda>(v', s'). while_push k (ex e) (acc @ [w]) v' s') = Some out"
    by simp
  then show ?case
  proof (cases rule: andThen_Some_cases)
    case (thrown err)
    with ex Suc.prems(1) have "agrees rs run input e s (Inl err)"
      by (auto dest: sound_executorD)
    with thrown show ?thesis by (auto intro: matches.Zero_or_more_throw)
  next
    case (returned x)
    obtain w' t where x: "x = (w', t)" by (cases x)
    with ex Suc.prems(1) returned have a: "matches rs run input e (pos s) (Inr (w', pos t))"
      and vt: "cache_valid rs run input (cache t)" and le: "cache s \<subseteq>\<^sub>m cache t"
      by (auto dest: sound_executorD)
    from returned x have rest: "while_push k (ex e) (acc @ [w]) w' t = Some out" by simp
    show ?thesis
    proof (cases "w' = JNull")
      case True
      with rest have "out = Inr (JArr (acc @ [w]), t)"
        by (cases k) (simp_all add: ok_def)
      moreover from a True have "matches rs run input (Zero_or_more e) (pos s) (Inr (JArr [], pos t))"
        by (auto intro: matches.Zero_or_more_stop)
      ultimately show ?thesis using vt le by auto
    next
      case False
      with vt rest have r: "case out of
            Inl err \<Rightarrow> matches rs run input (Zero_or_more e) (pos t) (Inl err)
          | Inr (v, s') \<Rightarrow>
              cache_valid rs run input (cache s') \<and> cache t \<subseteq>\<^sub>m cache s' \<and>
              (\<exists>vs. v = JArr ((acc @ [w]) @ w' # vs) \<and>
                 matches rs run input (Zero_or_more e) (pos t) (Inr (JArr vs, pos s')))"
        by (intro Suc.IH)
      show ?thesis
      proof (cases out)
        case (Inl err)
        with r a False show ?thesis by (auto intro: matches.Zero_or_more_rest_throw)
      next
        case (Inr y)
        obtain v s' where y: "y = (v, s')" by (cases y)
        from r Inr y obtain vs where vs': "cache_valid rs run input (cache s')"
          and le': "cache t \<subseteq>\<^sub>m cache s'" and v: "v = JArr ((acc @ [w]) @ w' # vs)"
          and m: "matches rs run input (Zero_or_more e) (pos t) (Inr (JArr vs, pos s'))"
          by auto
        from le le' have le'': "cache s \<subseteq>\<^sub>m cache s'" by (rule map_le_trans)
        from a False m
        have "matches rs run input (Zero_or_more e) (pos s) (Inr (JArr (w' # vs), pos s'))"
          by (rule matches.Zero_or_more_rest)
        with v Inr y vs' le'' show ?thesis by auto
      qed
    qed
  qed
qed

lemma matchFailed_pos_cache [simp]:
  "pos (matchFailed f s) = pos s" "cache (matchFailed f s) = cache s"
  by (simp_all add: matchFailed_def Let_def)

lemma reportFailure_pos_cache [simp]:
  "pos (reportFailure f s) = pos s" "cache (reportFailure f s) = cache s"
  by (simp_all add: reportFailure_def)

lemma cached_eq: "(c :: cached) = \<lparr>nextPos = nextPos c, result = result c\<rparr>"
  by simp

lemma parse_rule_sound:
  assumes ex: "sound_executor rs run input ex"
    and valid: "cache_valid rs run input (cache s)"
    and r: "parseFunction rs (name r) = Some r"
    and p: "parse_rule ex r s = Some out"
  shows "case out of
           Inl err \<Rightarrow> matches rs run input (expression r) (pos s) (Inl err)
         | Inr (v, s') \<Rightarrow>
             matches rs run input (expression r) (pos s) (Inr (v, pos s')) \<and>
             cache_valid rs run input (cache s') \<and> cache s \<subseteq>\<^sub>m cache s'"
proof (cases "cache s (cacheKey (name r) (pos s))")
  case (Some c)
  with p have out: "out = Inr (result c, s\<lparr>pos := nextPos c\<rparr>)"
    by (simp add: parse_rule_def ok_def)
  from valid Some r have "matches rs run input (expression r) (pos s) (Inr (result c, nextPos c))"
    by (rule cache_valid_hit)
  with out valid show ?thesis by simp
next
  case None
  define s1 where "s1 = (if displayName r \<noteq> None then s\<lparr>reportMatchFailures := False\<rparr> else s)"
  have s1: "pos s1 = pos s" "cache s1 = cache s" by (simp_all add: s1_def)
  define fin where "fin = (\<lambda>(v, s2).
                let s3 = (if displayName r \<noteq> None
                          then s2\<lparr>reportMatchFailures := reportMatchFailures s\<rparr> else s2);
                    s4 = (case displayName r of
                            Some d \<Rightarrow>
                              if reportMatchFailures s3 \<and> v = JNull then matchFailed d s3 else s3
                          | None \<Rightarrow> s3)
                in ok v (s4\<lparr>cache := (cache s4)(cacheKey (name r) (pos s) \<mapsto> \<lparr>nextPos = pos s4, result = v\<rparr>)\<rparr>))"
  from p None have "andThen (ex (expression r) s1) fin = Some out"
    by (simp add: parse_rule_def Let_def s1_def fin_def)
  then show ?thesis
  proof (cases rule: andThen_Some_cases)
    case (thrown err)
    with ex valid s1 have "agrees rs run input (expression r) s1 (Inl err)"
      using sound_executorD [of rs run input ex s1 "expression r" "Inl err"] by simp
    with thrown s1 show ?thesis by simp
  next
    case (returned x)
    obtain v s2 where x: "x = (v, s2)" by (cases x)
    with ex valid returned s1
    have a: "matches rs run input (expression r) (pos s) (Inr (v, pos s2))"
      and v2: "cache_valid rs run input (cache s2)" and le: "cache s \<subseteq>\<^sub>m cache s2"
      using sound_executorD [of rs run input ex s1 "expression r" "Inr (v, s2)"] by auto
    from returned x obtain s4 where
      out: "out = Inr (v, s4\<lparr>cache := (cache s4)(cacheKey (name r) (pos s) \<mapsto> \<lparr>nextPos = pos s4, result = v\<rparr>)\<rparr>)"
      and s4: "pos s4 = pos s2" "cache s4 = cache s2"
      by (auto simp: fin_def ok_def Let_def split: option.splits if_splits)
    let ?entry = "\<lparr>nextPos = pos s2, result = v\<rparr>"
    let ?c = "(cache s2)(cacheKey (name r) (pos s) \<mapsto> ?entry)"
    have valid': "cache_valid rs run input ?c"
      unfolding cache_valid_def
    proof (intro allI impI)
      fix key entry
      assume k: "?c key = Some entry"
      show "\<exists>r' p'. key = cacheKey (name r') p' \<and> parseFunction rs (name r') = Some r' \<and>
              matches rs run input (expression r') p' (Inr (result entry, nextPos entry))"
      proof (cases "key = cacheKey (name r) (pos s)")
        case True
        with k have "entry = ?entry" by simp
        with True r a show ?thesis by auto
      next
        case False
        with k have "cache s2 key = Some entry" by simp
        with v2 show ?thesis unfolding cache_valid_def by blast
      qed
    qed
    have "cache s2 \<subseteq>\<^sub>m ?c"
    proof (cases "cache s2 (cacheKey (name r) (pos s))")
      case None
      then show ?thesis by (auto simp: map_le_def)
    next
      case (Some c)
      with v2 r have "matches rs run input (expression r) (pos s) (Inr (result c, nextPos c))"
        by (intro cache_valid_hit)
      from this a have "Inr (v, pos s2) = (Inr (result c, nextPos c) :: error + jsvalue \<times> nat)"
        by (rule matches_deterministic)
      then have "c = ?entry" by simp
      with Some show ?thesis by (auto simp: map_le_def)
    qed
    with le have "cache s \<subseteq>\<^sub>m ?c" by (rule map_le_trans)
    with out s4 a valid' show ?thesis by simp
  qed
qed


lemma fragment_sound:
  assumes ex: "sound_executor rs run input ex"
    and valid: "cache_valid rs run input (cache s)"
    and f: "fragment rs run input k ex e s = Some out"
  shows "agrees rs run input e s out"
proof (cases e)
  case (Choice alts)
  with f valid show ?thesis using choice_alternatives_sound [OF ex] by simp
next
  case (Sequence es)
  with f have "sequence_elements ex (pos s) es [] s = Some out" by simp
  with valid have "case out of
            Inl err \<Rightarrow> matches rs run input (Sequence es) (pos s) (Inl err)
          | Inr (v, s') \<Rightarrow>
              cache_valid rs run input (cache s') \<and> cache s \<subseteq>\<^sub>m cache s' \<and>
              ((\<exists>vs. v = JArr ([] @ vs) \<and>
                  matches rs run input (Sequence es) (pos s) (Inr (JArr vs, pos s'))) \<or>
               (v = JNull \<and> pos s' = pos s \<and>
                  matches rs run input (Sequence es) (pos s) (Inr (JNull, pos s))))"
    by (rule sequence_elements_sound [OF ex])
  with Sequence show ?thesis by (auto simp: agrees_def split: sum.splits)
next
  case (Labeled l e1)
  with f have "ex e1 s = Some out" by simp
  with ex valid have "agrees rs run input e1 s out" by (rule sound_executorD)
  with Labeled show ?thesis
    by (auto simp: agrees_def intro: matches.Labeled_same split: sum.splits)
next
  case (Simple_and e1)
  let ?s0 = "s\<lparr>reportMatchFailures := False\<rparr>"
  from f Simple_and have "andThen (ex e1 ?s0) (\<lambda>(v, s1).
           let s2 = s1\<lparr>reportMatchFailures := reportMatchFailures s\<rparr>
           in if v \<noteq> JNull then ok (JStr []) (s2\<lparr>pos := pos s\<rparr>) else ok JNull s2) = Some out"
    by (simp add: Let_def)
  then show ?thesis
  proof (cases rule: andThen_Some_cases)
    case (thrown err)
    with ex valid have "agrees rs run input e1 ?s0 (Inl err)"
      using sound_executorD [of rs run input ex ?s0 e1 "Inl err"] by simp
    with thrown Simple_and show ?thesis by (auto intro: matches.Simple_and_throw)
  next
    case (returned x)
    obtain v s1 where x: "x = (v, s1)" by (cases x)
    with ex valid returned have a: "matches rs run input e1 (pos s) (Inr (v, pos s1))"
      and v1: "cache_valid rs run input (cache s1)" and le: "cache s \<subseteq>\<^sub>m cache s1"
      using sound_executorD [of rs run input ex ?s0 e1 "Inr (v, s1)"] by auto
    from a have "matches rs run input (Simple_and e1) (pos s)
        (Inr (if v \<noteq> JNull then (JStr [], pos s) else (JNull, pos s1)))"
      by (rule matches.Simple_and_result)
    with returned x v1 le Simple_and show ?thesis
      by (auto simp: Let_def ok_def split: if_splits)
  qed
next
  case (Simple_not e1)
  let ?s0 = "s\<lparr>reportMatchFailures := False\<rparr>"
  from f Simple_not have "andThen (ex e1 ?s0) (\<lambda>(v, s1).
           let s2 = s1\<lparr>reportMatchFailures := reportMatchFailures s\<rparr>
           in if v = JNull then ok (JStr []) s2 else ok JNull (s2\<lparr>pos := pos s\<rparr>)) = Some out"
    by (simp add: Let_def)
  then show ?thesis
  proof (cases rule: andThen_Some_cases)
    case (thrown err)
    with ex valid have "agrees rs run input e1 ?s0 (Inl err)"
      using sound_executorD [of rs run input ex ?s0 e1 "Inl err"] by simp
    with thrown Simple_not show ?thesis by (auto intro: matches.Simple_not_throw)
  next
    case (returned x)
    obtain v s1 where x: "x = (v, s1)" by (cases x)
    with ex valid returned have a: "matches rs run input e1 (pos s) (Inr (v, pos s1))"
      and v1: "cache_valid rs run input (cache s1)" and le: "cache s \<subseteq>\<^sub>m cache s1"
      using sound_executorD [of rs run input ex ?s0 e1 "Inr (v, s1)"] by auto
    from a have "matches rs run input (Simple_not e1) (pos s)
        (Inr (if v = JNull then (JStr [], pos s1) else (JNull, pos s)))"
      by (rule matches.Simple_not_result)
    with returned x v1 le Simple_not show ?thesis
      by (auto simp: Let_def ok_def split: if_splits)
  qed
next
  case (Semantic_and code)
  with f valid show ?thesis
    using matches.Semantic_and_result [of rs run input code "pos s"]
    by (auto simp: ok_def)
next
  case (Semantic_not code)
  with f valid show ?thesis
    using matches.Semantic_not_result [of rs run input code "pos s"]
    by (auto simp: ok_def)
next
  case (Optional e1)
  from f Optional
  have "andThen (ex e1 s) (\<lambda>(v, s1). ok (if v \<noteq> JNull then v else JStr []) s1) = Some out"
    by simp
  then show ?thesis
  proof (cases rule: andThen_Some_cases)
    case (thrown err)
    with ex valid have "agrees rs run input e1 s (Inl err)" by (auto dest: sound_executorD)
    with thrown Optional show ?thesis by (auto intro: matches.Optional_throw)
  next
    case (returned x)
    obtain v s1 where x: "x = (v, s1)" by (cases x)
    with ex valid returned have a: "matches rs run input e1 (pos s) (Inr (v, pos s1))"
      and v1: "cache_valid rs run input (cache s1)" and le: "cache s \<subseteq>\<^sub>m cache s1"
      by (auto dest: sound_executorD)
    from a have "matches rs run input (Optional e1) (pos s)
        (Inr (if v \<noteq> JNull then v else JStr [], pos s1))"
      by (rule matches.Optional_result)
    with returned x v1 le Optional show ?thesis by (auto simp: ok_def)
  qed
next
  case (Zero_or_more e1)
  from f Zero_or_more
  have "andThen (ex e1 s) (\<lambda>(v, s1). while_push k (ex e1) [] v s1) = Some out"
    by simp
  then show ?thesis
  proof (cases rule: andThen_Some_cases)
    case (thrown err)
    with ex valid have "agrees rs run input e1 s (Inl err)" by (auto dest: sound_executorD)
    with thrown Zero_or_more show ?thesis by (auto intro: matches.Zero_or_more_throw)
  next
    case (returned x)
    obtain v s1 where x: "x = (v, s1)" by (cases x)
    with ex valid returned have a: "matches rs run input e1 (pos s) (Inr (v, pos s1))"
      and v1: "cache_valid rs run input (cache s1)" and le: "cache s \<subseteq>\<^sub>m cache s1"
      by (auto dest: sound_executorD)
    from returned x have l: "while_push k (ex e1) [] v s1 = Some out" by simp
    show ?thesis
    proof (cases "v = JNull")
      case True
      with l have "out = Inr (JArr [], s1)" by (cases k) (simp_all add: ok_def)
      with a True v1 le Zero_or_more show ?thesis
        by (auto intro: matches.Zero_or_more_stop)
    next
      case False
      with v1 l have r: "case out of
            Inl err \<Rightarrow> matches rs run input (Zero_or_more e1) (pos s1) (Inl err)
          | Inr (u, s') \<Rightarrow>
              cache_valid rs run input (cache s') \<and> cache s1 \<subseteq>\<^sub>m cache s' \<and>
              (\<exists>vs. u = JArr ([] @ v # vs) \<and>
                 matches rs run input (Zero_or_more e1) (pos s1) (Inr (JArr vs, pos s')))"
        by (intro while_push_sound [OF ex])
      show ?thesis
      proof (cases out)
        case (Inl err)
        with r a False Zero_or_more show ?thesis
          by (auto intro: matches.Zero_or_more_rest_throw)
      next
        case (Inr y)
        obtain u s' where y: "y = (u, s')" by (cases y)
        from r Inr y obtain vs where vs': "cache_valid rs run input (cache s')"
          and le': "cache s1 \<subseteq>\<^sub>m cache s'" and u: "u = JArr (v # vs)"
          and m: "matches rs run input (Zero_or_more e1) (pos s1) (Inr (JArr vs, pos s'))"
          by auto
        from le le' have "cache s \<subseteq>\<^sub>m cache s'" by (rule map_le_trans)
        moreover from a False m
        have "matches rs run input (Zero_or_more e1) (pos s) (Inr (JArr (v # vs), pos s'))"
          by (rule matches.Zero_or_more_rest)
        ultimately show ?thesis using u Inr y vs' Zero_or_more by simp
      qed
    qed
  qed
next
  case (One_or_more e1)
  from f One_or_more
  have "andThen (ex e1 s) (\<lambda>(v, s1).
       if v \<noteq> JNull then while_push k (ex e1) [] v s1 else ok JNull s1) = Some out"
    by simp
  then show ?thesis
  proof (cases rule: andThen_Some_cases)
    case (thrown err)
    with ex valid have "agrees rs run input e1 s (Inl err)" by (auto dest: sound_executorD)
    with thrown One_or_more show ?thesis by (auto intro: matches.One_or_more_throw)
  next
    case (returned x)
    obtain v s1 where x: "x = (v, s1)" by (cases x)
    with ex valid returned have a: "matches rs run input e1 (pos s) (Inr (v, pos s1))"
      and v1: "cache_valid rs run input (cache s1)" and le: "cache s \<subseteq>\<^sub>m cache s1"
      by (auto dest: sound_executorD)
    show ?thesis
    proof (cases "v = JNull")
      case True
      with returned x have "out = Inr (JNull, s1)" by (simp add: ok_def)
      with a True v1 le One_or_more show ?thesis
        by (auto intro: matches.One_or_more_null)
    next
      case False
      with returned x have l: "while_push k (ex e1) [] v s1 = Some out" by simp
      with v1 False have r: "case out of
            Inl err \<Rightarrow> matches rs run input (Zero_or_more e1) (pos s1) (Inl err)
          | Inr (u, s') \<Rightarrow>
              cache_valid rs run input (cache s') \<and> cache s1 \<subseteq>\<^sub>m cache s' \<and>
              (\<exists>vs. u = JArr ([] @ v # vs) \<and>
                 matches rs run input (Zero_or_more e1) (pos s1) (Inr (JArr vs, pos s')))"
        by (intro while_push_sound [OF ex])
      show ?thesis
      proof (cases out)
        case (Inl err)
        with r a False One_or_more show ?thesis
          by (auto intro: matches.One_or_more_rest_throw)
      next
        case (Inr y)
        obtain u s' where y: "y = (u, s')" by (cases y)
        from r Inr y obtain vs where vs': "cache_valid rs run input (cache s')"
          and le': "cache s1 \<subseteq>\<^sub>m cache s'" and u: "u = JArr (v # vs)"
          and m: "matches rs run input (Zero_or_more e1) (pos s1) (Inr (JArr vs, pos s'))"
          by auto
        from le le' have "cache s \<subseteq>\<^sub>m cache s'" by (rule map_le_trans)
        moreover from a False m
        have "matches rs run input (One_or_more e1) (pos s) (Inr (JArr (v # vs), pos s'))"
          by (rule matches.One_or_more_rest)
        ultimately show ?thesis using u Inr y vs' One_or_more by simp
      qed
    qed
  qed
next
  case (Action e1 code)
  from f Action
  have "andThen (ex e1 s) (\<lambda>(v, s1).
       ok (if v \<noteq> JNull then run code (action_params e1 v) else JNull) s1) = Some out"
    by simp
  then show ?thesis
  proof (cases rule: andThen_Some_cases)
    case (thrown err)
    with ex valid have "agrees rs run input e1 s (Inl err)" by (auto dest: sound_executorD)
    with thrown Action show ?thesis by (auto intro: matches.Action_throw)
  next
    case (returned x)
    obtain v s1 where x: "x = (v, s1)" by (cases x)
    with ex valid returned have a: "matches rs run input e1 (pos s) (Inr (v, pos s1))"
      and v1: "cache_valid rs run input (cache s1)" and le: "cache s \<subseteq>\<^sub>m cache s1"
      by (auto dest: sound_executorD)
    from a have "matches rs run input (Action e1 code) (pos s)
        (Inr (if v \<noteq> JNull then run code (action_params e1 v) else JNull, pos s1))"
      by (rule matches.Action_result)
    with returned x v1 le Action show ?thesis by (auto simp: ok_def)
  qed
next
  case (Rule_ref nm)
  show ?thesis
  proof (cases "parseFunction rs nm")
    case None
    with f Rule_ref show ?thesis by (auto intro: matches.Rule_ref_undefined)
  next
    case (Some r)
    then have nm: "name r = nm" by (rule parseFunction_name)
    from f Rule_ref Some have p: "parse_rule ex r s = Some out" by simp
    from Some nm have "parseFunction rs (name r) = Some r" by simp
    with ex valid have "case out of
           Inl err \<Rightarrow> matches rs run input (expression r) (pos s) (Inl err)
         | Inr (v, s') \<Rightarrow>
             matches rs run input (expression r) (pos s) (Inr (v, pos s')) \<and>
             cache_valid rs run input (cache s') \<and> cache s \<subseteq>\<^sub>m cache s'"
      using p by (rule parse_rule_sound)
    with Rule_ref Some show ?thesis
      by (auto simp: agrees_def intro: matches.Rule_ref_body split: sum.splits)
  qed
next
  case (Literal val)
  with f valid show ?thesis
    using matches.Literal_result [of rs run input val "pos s"]
    by (auto simp: ok_def split: if_splits)
next
  case Any
  with f valid show ?thesis
    using matches.Any_result [of rs run input "pos s"]
    by (auto simp: ok_def split: if_splits)
next
  case (Class parts inverted rawText)
  with f valid show ?thesis
    using matches.Class_result [of rs run input parts inverted rawText "pos s"]
    by (auto simp: ok_def split: if_splits)
qed

lemma exec_sound_executor: "sound_executor rs run input (exec rs run input n)"
proof (induction n)
  case 0
  show ?case by (simp add: sound_executor_def)
next
  case (Suc n)
  show ?case
    unfolding sound_executor_def
  proof (intro allI impI)
    fix e s out
    assume "cache_valid rs run input (cache s)" and "exec rs run input (Suc n) e s = Some out"
    then show "agrees rs run input e s out"
      using fragment_sound [OF Suc] by simp
  qed
qed

lemma exec_sound:
  "cache_valid rs run input (cache s) \<Longrightarrow> exec rs run input n e s = Some out \<Longrightarrow>
   agrees rs run input e s out"
  using exec_sound_executor by (rule sound_executorD)


section \<open>Calls of a rule's function\<close>


lemma cache_valid_empty [simp]: "cache_valid rs run input Map.empty"
  by (simp add: cache_valid_def)

lemma parse_rule_stores:
  assumes "parse_rule ex r s = Some (Inr (v, s'))"
  shows "cache s' (cacheKey (name r) (pos s)) = Some \<lparr>nextPos = pos s', result = v\<rparr>"
proof (cases "cache s (cacheKey (name r) (pos s))")
  case (Some c)
  with assms show ?thesis by (auto simp: parse_rule_def ok_def)
next
  case None
  with assms show ?thesis
    by (auto simp: parse_rule_def ok_def andThen_Inr_iff Let_def split: option.splits if_splits)
qed

lemma parse_rule_hit:
  assumes "cache t (cacheKey (name r) (pos t)) = Some c"
  shows "parse_rule ex r t = Some (Inr (result c, t\<lparr>pos := nextPos c\<rparr>))"
  using assms by (simp add: parse_rule_def ok_def)


section \<open>More fuel keeps an outcome\<close>



lemma andThen_mono:
  assumes "andThen m f = Some out" and "\<And>x. m = Some (Inr x) \<Longrightarrow> f x = Some out \<Longrightarrow> g x = Some out"
  shows "andThen m g = Some out"
  using assms by (auto simp: andThen_def split: option.splits sum.splits)











section \<open>Positions, exceptions and the fragment contract in the reference\<close>






lemma matches_contract:
  assumes "\<And>code bindings. run code bindings \<noteq> JNull"
  shows "matches rs run input e p out \<Longrightarrow>
   (case out of Inl err \<Rightarrow> True
    | Inr (v, p') \<Rightarrow> (v \<noteq> JNull \<and> p \<le> p') \<or> (v = JNull \<and> p' = p))"
  by (induction rule: matches.induct) (use assms in auto)


section \<open>The loops of the repetitions\<close>


lemma exec_Inr_sound:
  assumes "cache_valid rs run input (cache s)" and "exec rs run input n e s = Some (Inr (v, s'))"
  shows "matches rs run input e (pos s) (Inr (v, pos s'))"
    and "cache_valid rs run input (cache s')" and "cache s \<subseteq>\<^sub>m cache s'"
  using exec_sound [OF assms] by simp_all








section \<open>The alternatives of a choice\<close>






section \<open>A call that misses the cache\<close>


lemma parse_rule_miss:
  assumes "cache s (cacheKey (name r) (pos s)) = None"
    and "parse_rule ex r s = Some (Inr (v, s'))"
  shows "\<exists>s2. ex (expression r)
                (if displayName r \<noteq> None then s\<lparr>reportMatchFailures := False\<rparr> else s) =
              Some (Inr (v, s2)) \<and>
            s' = (let s3 = (if displayName r \<noteq> None
                            then s2\<lparr>reportMatchFailures := reportMatchFailures s\<rparr> else s2);
                      s4 = (case displayName r of
                              Some d \<Rightarrow>
                                if reportMatchFailures s3 \<and> v = JNull then matchFailed d s3 else s3
                            | None \<Rightarrow> s3)
                  in s4\<lparr>cache := (cache s4)(cacheKey (name r) (pos s) \<mapsto>
                                    \<lparr>nextPos = pos s4, result = v\<rparr>)\<rparr>)"
  using assms by (auto simp: parse_rule_def andThen_Inr_iff ok_def Let_def)


section \<open>The entry point and the contract\<close>






lemma exec_contract:
  assumes "\<And>code bindings. run code bindings \<noteq> JNull"
    and "cache_valid rs run input (cache s)"
    and "exec rs run input n e s = Some (Inr (v, s'))"
  shows "(v \<noteq> JNull \<and> pos s \<le> pos s') \<or> (v = JNull \<and> pos s' = pos s)"
  using matches_contract [OF assms(1) exec_Inr_sound(1) [OF assms(2,3)]] by simp

section \<open>Line and column\<close>


lemma fold_upt_Suc: "fold f [0 ..< Suc n] a = f n (fold f [0 ..< n] a)"
  by simp

text \<open>
  Where no line or paragraph separator stands immediately before a line feed, the
  generated \<open>computeErrorPosition\<close> computes the line and column of the specification.
\<close>

lemma computeErrorPosition_agrees:
  assumes "\<forall>i. Suc i < n \<longrightarrow>
     \<not> ((charAt input i = [0x2028] \<or> charAt input i = [0x2029]) \<and> charAt input (Suc i) = [0x0A])"
  shows "fold (\<lambda>i. computeErrorPosition_step (charAt input i)) [0 ..< n] (1, 1, False) =
     (case fold (\<lambda>i. lineColumn_step (if i = 0 then [] else charAt input (i - 1)) (charAt input i))
             [0 ..< n] (1, 1) of
        (ln, col) \<Rightarrow> (ln, col,
           n > 0 \<and> (charAt input (n - 1) = [0x0D] \<or> charAt input (n - 1) = [0x2028] \<or>
                    charAt input (n - 1) = [0x2029])))"
  using assms
proof (induction n)
  case 0
  show ?case by simp
next
  case (Suc n)
  from Suc.prems have "\<forall>i. Suc i < n \<longrightarrow>
     \<not> ((charAt input i = [0x2028] \<or> charAt input i = [0x2029]) \<and> charAt input (Suc i) = [0x0A])"
    by simp
  note IH = Suc.IH [OF this]
  obtain ln col where f: "fold (\<lambda>i. lineColumn_step (if i = 0 then [] else charAt input (i - 1))
      (charAt input i)) [0 ..< n] (1, 1) = (ln, col)"
    by (cases "fold (\<lambda>i. lineColumn_step (if i = 0 then [] else charAt input (i - 1))
      (charAt input i)) [0 ..< n] (1, 1)")
  show ?case
  proof (cases n)
    case 0
    with IH f show ?thesis by (auto simp: fold_upt_Suc simp del: upt_Suc)
  next
    case (Suc k)
    from Suc.prems Suc
    have sep: "\<not> ((charAt input k = [0x2028] \<or> charAt input k = [0x2029]) \<and>
                charAt input n = [0x0A])"
      by simp
    from IH f Suc sep show ?thesis
      by (auto simp: fold_upt_Suc simp del: upt_Suc)
  qed
qed

lemma computeErrorPosition_spec:
  assumes "\<forall>i. Suc i < rightmostMatchFailuresPos s \<longrightarrow>
     \<not> ((charAt input i = [0x2028] \<or> charAt input i = [0x2029]) \<and> charAt input (Suc i) = [0x0A])"
  shows "computeErrorPosition input s = lineColumn_spec input (rightmostMatchFailuresPos s)"
  unfolding computeErrorPosition_def lineColumn_spec_def
    computeErrorPosition_agrees [OF assms]
  by (simp split: prod.splits)


section \<open>The template engine\<close>


lemma split_not_Nil [simp]: "split sep s \<noteq> []"
  by (induction s) (auto split: list.splits)

lemma hd_split_Cons:
  "hd (split sep (c # cs)) = (if c = sep then [] else c # hd (split sep cs))"
  by (cases "split sep cs") auto

lemma takeWhile_first_line:
  "\<exists>x\<in>set (hd (split 0x0A part)). \<not> isWhiteSpace x \<Longrightarrow>
   takeWhile isWhiteSpace part = takeWhile isWhiteSpace (hd (split 0x0A part))"
proof (induction part)
  case Nil
  then show ?case by simp
next
  case (Cons c cs)
  show ?case
  proof (cases "c = 0x0A")
    case True
    with Cons.prems show ?thesis by (simp add: hd_split_Cons del: split.simps)
  next
    case False
    show ?thesis
    proof (cases "isWhiteSpace c")
      case ws: False
      with False show ?thesis by (simp add: hd_split_Cons del: split.simps)
    next
      case ws: True
      with Cons.prems False have "\<exists>x\<in>set (hd (split 0x0A cs)). \<not> isWhiteSpace x"
        by (auto simp: hd_split_Cons simp del: split.simps)
      then have "takeWhile isWhiteSpace cs = takeWhile isWhiteSpace (hd (split 0x0A cs))"
        by (rule Cons.IH)
      with ws False show ?thesis by (simp add: hd_split_Cons del: split.simps)
    qed
  qed
qed

text \<open>
  Where the first line of a part has a character that is not white space, the
  re-indentation of \<open>formatCode\<close> is the one of the specification; parts without a
  newline are left as they are.
\<close>

lemma indentMultilinePart_spec:
  assumes "\<exists>x\<in>set (hd (split 0x0A part)). \<not> isWhiteSpace x"
  shows "indentMultilinePart part = indentMultilinePart_spec part"
proof -
  obtain l ls where s: "split 0x0A part = l # ls"
    by (cases "split 0x0A part") auto
  with assms have "takeWhile isWhiteSpace part = takeWhile isWhiteSpace l"
    using takeWhile_first_line [of part] by simp
  with s show ?thesis
    by (simp add: indentMultilinePart_def indentMultilinePart_spec_def Let_def)
qed

lemma indentMultilinePart_one_line: "0x0A \<notin> set part \<Longrightarrow> indentMultilinePart part = part"
  by (simp add: indentMultilinePart_def)

lemmas formatCode_eval = formatCode_def indentMultilineParts_def indentMultilinePart_def
  indentMultilinePart_spec_def match_variable_def replacement_def isIdentStart_def
  isIdentPart_def isWhiteSpace_def js_simps



















section \<open>The emitted text\<close>




















section \<open>The claims\<close>

text \<open>
  C5. Rightmost-failure aggregation. A call \<open>matchFailed(f)\<close> has no effect when
  \<open>pos\<close> is left of \<open>rightmostMatchFailuresPos\<close>; when \<open>pos\<close> is right of it, the
  call moves \<open>rightmostMatchFailuresPos\<close> to \<open>pos\<close> and the expected list becomes
  \<open>[f]\<close>; when they are equal, \<open>f\<close> is appended to the expected list. So
  \<open>rightmostMatchFailuresPos\<close> does not decrease, in a call and in the execution
  of any fragment.
\<close>

theorem matchFailed_rightmost:
  "(pos s < rightmostMatchFailuresPos s \<longrightarrow> matchFailed f s = s) \<and>
   (pos s > rightmostMatchFailuresPos s \<longrightarrow>
      matchFailed f s = s\<lparr>rightmostMatchFailuresPos := pos s,
                           rightmostMatchFailuresExpected := [f]\<rparr>) \<and>
   (pos s = rightmostMatchFailuresPos s \<longrightarrow>
      matchFailed f s = s\<lparr>rightmostMatchFailuresExpected := rightmostMatchFailuresExpected s @ [f]\<rparr>) \<and>
   rightmostMatchFailuresPos s \<le> rightmostMatchFailuresPos (matchFailed f s) \<and>
   (exec rs run input n e s = Some (Inr (v, s')) \<longrightarrow>
      rightmostMatchFailuresPos s \<le> rightmostMatchFailuresPos s')"
proof -
  have "exec rs run input n e s = Some (Inr (v, s')) \<longrightarrow>
      rightmostMatchFailuresPos s \<le> rightmostMatchFailuresPos s'"
    using exec_steady [of rs run input n e s v s'] by (simp add: steady_def)
  then show ?thesis
    by (simp add: matchFailed_def Let_def)
qed

theorem matchFailed_rightmost_witness:
  "matchFailed (js ''f'')
     \<lparr>pos = 0, reportMatchFailures = True, rightmostMatchFailuresPos = 1,
      rightmostMatchFailuresExpected = [js ''e''], cache = Map.empty\<rparr> =
     \<lparr>pos = 0, reportMatchFailures = True, rightmostMatchFailuresPos = 1,
      rightmostMatchFailuresExpected = [js ''e''], cache = Map.empty\<rparr> \<and>
   matchFailed (js ''f'')
     \<lparr>pos = 2, reportMatchFailures = True, rightmostMatchFailuresPos = 1,
      rightmostMatchFailuresExpected = [js ''e''], cache = Map.empty\<rparr> =
     \<lparr>pos = 2, reportMatchFailures = True, rightmostMatchFailuresPos = 2,
      rightmostMatchFailuresExpected = [js ''f''], cache = Map.empty\<rparr> \<and>
   matchFailed (js ''f'')
     \<lparr>pos = 1, reportMatchFailures = True, rightmostMatchFailuresPos = 1,
      rightmostMatchFailuresExpected = [js ''e''], cache = Map.empty\<rparr> =
     \<lparr>pos = 1, reportMatchFailures = True, rightmostMatchFailuresPos = 1,
      rightmostMatchFailuresExpected = [js ''e'', js ''f''], cache = Map.empty\<rparr> \<and>
   exec rules_any returns_null (js ''x'') 1 (Literal (js ''y''))
     \<lparr>pos = 1, reportMatchFailures = True, rightmostMatchFailuresPos = 0,
      rightmostMatchFailuresExpected = [js ''e''], cache = Map.empty\<rparr> =
     Some (Inr (JNull,
       \<lparr>pos = 1, reportMatchFailures = True, rightmostMatchFailuresPos = 1,
        rightmostMatchFailuresExpected = [quote (js ''y'')], cache = Map.empty\<rparr>)) \<and>
   (0::nat) \<le> 1"
proof -
  let ?left = "\<lparr>pos = 0, reportMatchFailures = True, rightmostMatchFailuresPos = 1,
      rightmostMatchFailuresExpected = [js ''e''], cache = Map.empty\<rparr>"
  let ?right = "\<lparr>pos = 2, reportMatchFailures = True, rightmostMatchFailuresPos = 1,
      rightmostMatchFailuresExpected = [js ''e''], cache = Map.empty\<rparr>"
  let ?same = "\<lparr>pos = 1, reportMatchFailures = True, rightmostMatchFailuresPos = 1,
      rightmostMatchFailuresExpected = [js ''e''], cache = Map.empty\<rparr>"
  let ?s = "\<lparr>pos = 1, reportMatchFailures = True, rightmostMatchFailuresPos = 0,
      rightmostMatchFailuresExpected = [js ''e''], cache = Map.empty\<rparr>"
  let ?s' = "\<lparr>pos = 1, reportMatchFailures = True, rightmostMatchFailuresPos = 1,
        rightmostMatchFailuresExpected = [quote (js ''y'')], cache = Map.empty\<rparr>"
  have run: "exec rules_any returns_null (js ''x'') 1 (Literal (js ''y'')) ?s = Some (Inr (JNull, ?s'))"
    by (simp add: ok_def substr_def reportFailure_def matchFailed_def js_simps)
  have "rightmostMatchFailuresPos ?s \<le> rightmostMatchFailuresPos ?s'"
    using matchFailed_rightmost [of ?s undefined rules_any returns_null "js ''x''" 1
        "Literal (js ''y'')" JNull ?s'] run
    by (simp only:)
  then have le: "(0::nat) \<le> 1" by simp
  have a: "matchFailed (js ''f'') ?left = ?left"
    using matchFailed_rightmost [of ?left "js ''f''"] by simp
  have b: "matchFailed (js ''f'') ?right =
     \<lparr>pos = 2, reportMatchFailures = True, rightmostMatchFailuresPos = 2,
      rightmostMatchFailuresExpected = [js ''f''], cache = Map.empty\<rparr>"
    using matchFailed_rightmost [of ?right "js ''f''"] by simp
  have c: "matchFailed (js ''f'') ?same =
     \<lparr>pos = 1, reportMatchFailures = True, rightmostMatchFailuresPos = 1,
      rightmostMatchFailuresExpected = [js ''e'', js ''f''], cache = Map.empty\<rparr>"
    using matchFailed_rightmost [of ?same "js ''f''"] by simp
  show ?thesis by (intro conjI a b c run le)
qed

text \<open>
  C2. Packrat cache coherence. For a coherent cache (as the empty cache at the start
  of a parse is) and a completed call of \<open>parse_<rule>\<close> at position \<open>pos s\<close>:
  afterwards the cache maps the key \<open>"<rule>@<pos s>"\<close> to the call's final position
  and result; the call and every fragment executed later keep all entries of the
  cache and keep it coherent; a later call at the same position in a state that has
  the entry returns the cached result and sets \<open>pos\<close> to the cached next position,
  changing nothing else; and any two completed calls of the rule at the same position
  yield the same result and the same final position.
\<close>

theorem packrat_cache_coherence:
  assumes valid: "cache_valid rs run input (cache s)"
    and fn: "parseFunction rs (name r) = Some r"
    and call: "parse_rule (exec rs run input n) r s = Some (Inr (v, s'))"
  shows "cache s' (cacheKey (name r) (pos s)) = Some \<lparr>nextPos = pos s', result = v\<rparr> \<and>
         cache s \<subseteq>\<^sub>m cache s' \<and> cache_valid rs run input (cache s') \<and>
         (\<forall>t m e w t'. cache_valid rs run input (cache t) \<and>
              exec rs run input m e t = Some (Inr (w, t')) \<longrightarrow>
              cache t \<subseteq>\<^sub>m cache t' \<and> cache_valid rs run input (cache t')) \<and>
         (\<forall>t ex. pos t = pos s \<and> cache s' \<subseteq>\<^sub>m cache t \<longrightarrow>
              parse_rule ex r t = Some (Inr (v, t\<lparr>pos := pos s'\<rparr>))) \<and>
         (\<forall>t m w t'. cache_valid rs run input (cache t) \<and> pos t = pos s \<and>
              parse_rule (exec rs run input m) r t = Some (Inr (w, t')) \<longrightarrow>
              w = v \<and> pos t' = pos s')"
proof -
  have stored: "cache s' (cacheKey (name r) (pos s)) = Some \<lparr>nextPos = pos s', result = v\<rparr>"
    using call by (rule parse_rule_stores)
  have snd: "matches rs run input (expression r) (pos s) (Inr (v, pos s'))"
    and keep: "cache s \<subseteq>\<^sub>m cache s'" and valid': "cache_valid rs run input (cache s')"
    using parse_rule_sound [OF exec_sound_executor valid fn call] by simp_all
  have later: "cache t \<subseteq>\<^sub>m cache t' \<and> cache_valid rs run input (cache t')"
    if "cache_valid rs run input (cache t)" and "exec rs run input m e t = Some (Inr (w, t'))"
    for t m e w t'
    using exec_sound [OF that] by simp
  have hit: "parse_rule ex r t = Some (Inr (v, t\<lparr>pos := pos s'\<rparr>))"
    if "pos t = pos s" and "cache s' \<subseteq>\<^sub>m cache t" for t ex
  proof -
    from stored that(2)
    have "cache t (cacheKey (name r) (pos s)) = Some \<lparr>nextPos = pos s', result = v\<rparr>"
      by (auto simp: map_le_def dom_def)
    with that(1) show ?thesis
      using parse_rule_hit [of t r "\<lparr>nextPos = pos s', result = v\<rparr>" ex] by simp
  qed
  have same: "w = v \<and> pos t' = pos s'"
    if "cache_valid rs run input (cache t)" and "pos t = pos s"
      and "parse_rule (exec rs run input m) r t = Some (Inr (w, t'))" for t m w t'
  proof -
    have "matches rs run input (expression r) (pos s) (Inr (w, pos t'))"
      using parse_rule_sound [OF exec_sound_executor that(1) fn that(3)] that(2) by simp
    from this snd have "Inr (v, pos s') = (Inr (w, pos t') :: error + jsvalue \<times> nat)"
      by (rule matches_deterministic)
    then show ?thesis by simp
  qed
  have c4: "\<forall>t m e w t'. cache_valid rs run input (cache t) \<and>
              exec rs run input m e t = Some (Inr (w, t')) \<longrightarrow>
              cache t \<subseteq>\<^sub>m cache t' \<and> cache_valid rs run input (cache t')"
    using later by blast
  have c5: "\<forall>t ex. pos t = pos s \<and> cache s' \<subseteq>\<^sub>m cache t \<longrightarrow>
              parse_rule ex r t = Some (Inr (v, t\<lparr>pos := pos s'\<rparr>))"
    using hit by blast
  have c6: "\<forall>t m w t'. cache_valid rs run input (cache t) \<and> pos t = pos s \<and>
              parse_rule (exec rs run input m) r t = Some (Inr (w, t')) \<longrightarrow>
              w = v \<and> pos t' = pos s'"
    using same by blast
  show ?thesis by (intro conjI stored keep valid' c4 c5 c6)
qed

lemma rule_any_call:
  "parse_rule (exec rules_any returns_null (js ''x'') 1) rule_any initial_state =
     Some (Inr (JStr (js ''x''),
       initial_state\<lparr>pos := 1,
         cache := [cacheKey (js ''start'') 0 \<mapsto> \<lparr>nextPos = 1, result = JStr (js ''x'')\<rparr>]\<rparr>))"
  by (simp add: parse_rule_def rule_any_def initial_state_def ok_def charAt_def js_simps)

theorem packrat_cache_coherence_witness:
  "cache_valid rules_any returns_null (js ''x'') (cache initial_state) \<and>
   parseFunction rules_any (name rule_any) = Some rule_any \<and>
   parse_rule (exec rules_any returns_null (js ''x'') 1) rule_any initial_state =
     Some (Inr (JStr (js ''x''),
       initial_state\<lparr>pos := 1,
         cache := [cacheKey (js ''start'') 0 \<mapsto> \<lparr>nextPos = 1, result = JStr (js ''x'')\<rparr>]\<rparr>)) \<and>
   parse_rule (exec rules_any returns_null (js ''x'') 0) rule_any
     (initial_state\<lparr>pos := 0,
         cache := [cacheKey (js ''start'') 0 \<mapsto> \<lparr>nextPos = 1, result = JStr (js ''x'')\<rparr>]\<rparr>) =
     Some (Inr (JStr (js ''x''),
       initial_state\<lparr>pos := 1,
         cache := [cacheKey (js ''start'') 0 \<mapsto> \<lparr>nextPos = 1, result = JStr (js ''x'')\<rparr>]\<rparr>))"
proof -
  let ?c = "[cacheKey (js ''start'') 0 \<mapsto> \<lparr>nextPos = 1, result = JStr (js ''x'')\<rparr>]"
  have h1: "cache_valid rules_any returns_null (js ''x'') (cache initial_state)"
    by (simp add: initial_state_def)
  have h2: "parseFunction rules_any (name rule_any) = Some rule_any"
    by (simp add: parseFunction_def rules_any_def)
  note c = packrat_cache_coherence [OF h1 h2 rule_any_call]
  note hit = c [THEN conjunct2, THEN conjunct2, THEN conjunct2, THEN conjunct2, THEN conjunct1,
      rule_format, of "initial_state\<lparr>pos := 0, cache := ?c\<rparr>"
        "exec rules_any returns_null (js ''x'') 0"]
  have again: "parse_rule (exec rules_any returns_null (js ''x'') 0) rule_any
     (initial_state\<lparr>pos := 0, cache := ?c\<rparr>) =
     Some (Inr (JStr (js ''x''), initial_state\<lparr>pos := 1, cache := ?c\<rparr>))"
    using hit by (simp add: initial_state_def)
  show ?thesis
    by (intro conjI h1 h2 rule_any_call again)
qed










text \<open>
  C8. Display-name reporting, as the generated function does it. On a call that
  misses the cache, a rule with a display name runs its body with
  \<open>reportMatchFailures\<close> set to \<open>false\<close>, so that the body records no failure, and
  restores the flag after the body; it then calls \<open>matchFailed(displayName)\<close> when the
  restored flag is \<open>true\<close> and the body's result is \<open>null\<close>, and only then. A rule
  without a display name runs its body in the state of the call and adds nothing but
  the cache entry.
\<close>

theorem display_name_reporting:
  "(cache s (cacheKey (name r) (pos s)) = None \<and> displayName r = Some d \<and>
    parse_rule (exec rs run input n) r s = Some (Inr (v, s')) \<longrightarrow>
      (\<exists>s2. exec rs run input n (expression r) (s\<lparr>reportMatchFailures := False\<rparr>) =
               Some (Inr (v, s2)) \<and>
             reportMatchFailures s2 = False \<and>
             rightmostMatchFailuresPos s2 = rightmostMatchFailuresPos s \<and>
             rightmostMatchFailuresExpected s2 = rightmostMatchFailuresExpected s \<and>
             s' = (if reportMatchFailures s \<and> v = JNull
                   then matchFailed d (s2\<lparr>reportMatchFailures := reportMatchFailures s\<rparr>)
                   else s2\<lparr>reportMatchFailures := reportMatchFailures s\<rparr>)
                  \<lparr>cache := (cache s2)(cacheKey (name r) (pos s) \<mapsto>
                               \<lparr>nextPos = pos s2, result = v\<rparr>)\<rparr>)) \<and>
   (cache s (cacheKey (name r) (pos s)) = None \<and> displayName r = None \<and>
    parse_rule (exec rs run input n) r s = Some (Inr (v, s')) \<longrightarrow>
      (\<exists>s2. exec rs run input n (expression r) s = Some (Inr (v, s2)) \<and>
             s' = s2\<lparr>cache := (cache s2)(cacheKey (name r) (pos s) \<mapsto>
                                 \<lparr>nextPos = pos s2, result = v\<rparr>)\<rparr>))"
proof (intro conjI impI)
  assume a: "cache s (cacheKey (name r) (pos s)) = None \<and> displayName r = Some d \<and>
    parse_rule (exec rs run input n) r s = Some (Inr (v, s'))"
  then have miss: "cache s (cacheKey (name r) (pos s)) = None" and d: "displayName r = Some d"
    and call: "parse_rule (exec rs run input n) r s = Some (Inr (v, s'))"
    by blast+
  from parse_rule_miss [OF miss call] d obtain s2 where
    body: "exec rs run input n (expression r) (s\<lparr>reportMatchFailures := False\<rparr>) = Some (Inr (v, s2))"
    and s': "s' = (if reportMatchFailures s \<and> v = JNull
                   then matchFailed d (s2\<lparr>reportMatchFailures := reportMatchFailures s\<rparr>)
                   else s2\<lparr>reportMatchFailures := reportMatchFailures s\<rparr>)
                  \<lparr>cache := (cache s2)(cacheKey (name r) (pos s) \<mapsto>
                               \<lparr>nextPos = pos s2, result = v\<rparr>)\<rparr>"
    by (auto simp: Let_def)
  from exec_steady [OF body] have "reportMatchFailures s2 = False"
    and "rightmostMatchFailuresPos s2 = rightmostMatchFailuresPos s"
    and "rightmostMatchFailuresExpected s2 = rightmostMatchFailuresExpected s"
    by (simp_all add: steady_def)
  with body s' show "\<exists>s2. exec rs run input n (expression r) (s\<lparr>reportMatchFailures := False\<rparr>) =
               Some (Inr (v, s2)) \<and>
             reportMatchFailures s2 = False \<and>
             rightmostMatchFailuresPos s2 = rightmostMatchFailuresPos s \<and>
             rightmostMatchFailuresExpected s2 = rightmostMatchFailuresExpected s \<and>
             s' = (if reportMatchFailures s \<and> v = JNull
                   then matchFailed d (s2\<lparr>reportMatchFailures := reportMatchFailures s\<rparr>)
                   else s2\<lparr>reportMatchFailures := reportMatchFailures s\<rparr>)
                  \<lparr>cache := (cache s2)(cacheKey (name r) (pos s) \<mapsto>
                               \<lparr>nextPos = pos s2, result = v\<rparr>)\<rparr>"
    by blast
next
  assume a: "cache s (cacheKey (name r) (pos s)) = None \<and> displayName r = None \<and>
    parse_rule (exec rs run input n) r s = Some (Inr (v, s'))"
  then have miss: "cache s (cacheKey (name r) (pos s)) = None" and d: "displayName r = None"
    and call: "parse_rule (exec rs run input n) r s = Some (Inr (v, s'))"
    by blast+
  from parse_rule_miss [OF miss call] d
  show "\<exists>s2. exec rs run input n (expression r) s = Some (Inr (v, s2)) \<and>
             s' = s2\<lparr>cache := (cache s2)(cacheKey (name r) (pos s) \<mapsto>
                                 \<lparr>nextPos = pos s2, result = v\<rparr>)\<rparr>"
    by (auto simp: Let_def)
qed

lemma rule_letter_quiet:
  "parse_rule (exec [] returns_null (js ''b'') 1) rule_letter
       (initial_state\<lparr>reportMatchFailures := False\<rparr>) =
     Some (Inr (JNull,
       initial_state\<lparr>reportMatchFailures := False,
         cache := [cacheKey (js ''start'') 0 \<mapsto> \<lparr>nextPos = 0, result = JNull\<rparr>]\<rparr>))"
  by (simp add: parse_rule_def rule_letter_def initial_state_def ok_def substr_def
      reportFailure_def js_simps)

lemma rule_letter_reported:
  "parse_rule (exec [] returns_null (js ''b'') 1) rule_letter initial_state =
     Some (Inr (JNull,
       initial_state\<lparr>rightmostMatchFailuresExpected := [js ''letter''],
         cache := [cacheKey (js ''start'') 0 \<mapsto> \<lparr>nextPos = 0, result = JNull\<rparr>]\<rparr>))"
  by (simp add: parse_rule_def rule_letter_def initial_state_def ok_def substr_def
      reportFailure_def matchFailed_def js_simps)

lemma rule_any_call_x:
  "parse_rule (exec [] returns_null (js ''x'') 1) rule_any initial_state =
     Some (Inr (JStr (js ''x''),
       initial_state\<lparr>pos := 1,
         cache := [cacheKey (js ''start'') 0 \<mapsto> \<lparr>nextPos = 1, result = JStr (js ''x'')\<rparr>]\<rparr>))"
  by (simp add: parse_rule_def rule_any_def initial_state_def ok_def charAt_def js_simps)

text \<open>
  The claim as the specification states it fails: the body's result is \<open>null\<close> after
  the restoration, and \<open>matchFailed\<close> is not called, since the restored flag is
  \<open>false\<close>; the expected list stays empty, where the call would have made it
  \<open>["letter"]\<close>.
\<close>

theorem display_name_not_reported:
  "parse_rule (exec [] returns_null (js ''b'') 1) rule_letter
       (initial_state\<lparr>reportMatchFailures := False\<rparr>) =
     Some (Inr (JNull,
       initial_state\<lparr>reportMatchFailures := False,
         cache := [cacheKey (js ''start'') 0 \<mapsto> \<lparr>nextPos = 0, result = JNull\<rparr>]\<rparr>)) \<and>
   rightmostMatchFailuresExpected
     (initial_state\<lparr>reportMatchFailures := False,
         cache := [cacheKey (js ''start'') 0 \<mapsto> \<lparr>nextPos = 0, result = JNull\<rparr>]\<rparr>) = [] \<and>
   rightmostMatchFailuresExpected
     (matchFailed (js ''letter'') (initial_state\<lparr>reportMatchFailures := False\<rparr>)) =
     [js ''letter'']"
  using rule_letter_quiet by (simp add: initial_state_def matchFailed_def)



theorem display_name_reporting_witness:
  "(\<exists>s2. exec [] returns_null (js ''b'') 1 (expression rule_letter)
            (initial_state\<lparr>reportMatchFailures := False\<rparr>) = Some (Inr (JNull, s2)) \<and>
         reportMatchFailures s2 = False \<and>
         rightmostMatchFailuresPos s2 = rightmostMatchFailuresPos initial_state \<and>
         rightmostMatchFailuresExpected s2 = rightmostMatchFailuresExpected initial_state \<and>
         initial_state\<lparr>rightmostMatchFailuresExpected := [js ''letter''],
           cache := [cacheKey (js ''start'') 0 \<mapsto> \<lparr>nextPos = 0, result = JNull\<rparr>]\<rparr> =
           (if reportMatchFailures initial_state \<and> JNull = JNull
            then matchFailed (js ''letter'')
                   (s2\<lparr>reportMatchFailures := reportMatchFailures initial_state\<rparr>)
            else s2\<lparr>reportMatchFailures := reportMatchFailures initial_state\<rparr>)
           \<lparr>cache := (cache s2)(cacheKey (name rule_letter) (pos initial_state) \<mapsto>
                        \<lparr>nextPos = pos s2, result = JNull\<rparr>)\<rparr>) \<and>
   (\<exists>s2. exec [] returns_null (js ''x'') 1 (expression rule_any) initial_state =
            Some (Inr (JStr (js ''x''), s2)) \<and>
         initial_state\<lparr>pos := 1,
           cache := [cacheKey (js ''start'') 0 \<mapsto> \<lparr>nextPos = 1, result = JStr (js ''x'')\<rparr>]\<rparr> =
           s2\<lparr>cache := (cache s2)(cacheKey (name rule_any) (pos initial_state) \<mapsto>
                          \<lparr>nextPos = pos s2, result = JStr (js ''x'')\<rparr>)\<rparr>)"
proof -
  have miss1: "cache initial_state (cacheKey (name rule_letter) (pos initial_state)) = None"
    by (simp add: initial_state_def)
  have d1: "displayName rule_letter = Some (js ''letter'')"
    by (simp add: rule_letter_def)
  have miss2: "cache initial_state (cacheKey (name rule_any) (pos initial_state)) = None"
    by (simp add: initial_state_def)
  have d2: "displayName rule_any = None"
    by (simp add: rule_any_def)
  note named = display_name_reporting [where s = initial_state and r = rule_letter
      and d = "js ''letter''" and rs = "[]" and run = returns_null and input = "js ''b''"
      and n = 1 and v = JNull
      and s' = "initial_state\<lparr>rightmostMatchFailuresExpected := [js ''letter''],
           cache := [cacheKey (js ''start'') 0 \<mapsto> \<lparr>nextPos = 0, result = JNull\<rparr>]\<rparr>",
      THEN conjunct1, rule_format, OF conjI [OF miss1 conjI [OF d1 rule_letter_reported]]]
  note plain = display_name_reporting [where s = initial_state and r = rule_any
      and rs = "[]" and run = returns_null and input = "js ''x''"
      and n = 1 and v = "JStr (js ''x'')"
      and s' = "initial_state\<lparr>pos := 1,
           cache := [cacheKey (js ''start'') 0 \<mapsto> \<lparr>nextPos = 1, result = JStr (js ''x'')\<rparr>]\<rparr>",
      THEN conjunct2, rule_format, OF conjI [OF miss2 conjI [OF d2 rule_any_call_x]]]
  show ?thesis
    by (intro conjI named plain)
qed






text \<open>
  C1. The fragment contract fails for an action whose code returns \<open>null\<close>: on the
  input \<open>"a"\<close> the fragment of \<open>"a" { return null; }\<close> leaves \<open>null\<close> in its result
  variable and \<open>pos\<close> at 1, not at 0 where it was on entry; and \<open>parse\<close> throws a
  \<open>SyntaxError\<close> for the grammar with this start rule although \<open>pos\<close> has reached the
  end of the input.
\<close>

theorem action_null_moves_pos:
  "exec [] returns_null (js ''a'') 2 (Action (Literal (js ''a'')) (js ''return null;''))
       initial_state =
     Some (Inr (JNull, initial_state\<lparr>pos := 1\<rparr>)) \<and>
   pos (initial_state\<lparr>pos := 1\<rparr>) \<noteq> pos initial_state \<and>
   parse grammar_action returns_null 2 (js ''a'') None =
     Some (Inl (SyntaxError (js ''Expected end of input but end of input found.'') 1 1))"
proof -
  have two: "2 = Suc (Suc 0)" by simp
  have a: "exec [] returns_null (js ''a'') 2 (Action (Literal (js ''a'')) (js ''return null;''))
       initial_state = Some (Inr (JNull, initial_state\<lparr>pos := 1\<rparr>))"
    unfolding two
    by (simp add: ok_def substr_def returns_null_def initial_state_def js_simps)
  have b: "pos (initial_state\<lparr>pos := 1\<rparr>) \<noteq> pos initial_state"
    by (simp add: initial_state_def)
  have s: "startFunction grammar_action None = Inr rule_action"
    by (simp add: startFunction_def grammar_action_def parseFunction_def rule_action_def)
  have call: "parse_rule (exec (rules grammar_action) returns_null (js ''a'') (Suc (Suc 0)))
       rule_action initial_state =
     Some (Inr (JNull, initial_state\<lparr>pos := 1,
       cache := [cacheKey (js ''start'') 0 \<mapsto> \<lparr>nextPos = 1, result = JNull\<rparr>]\<rparr>))"
    by (simp add: parse_rule_def rule_action_def initial_state_def ok_def substr_def
        returns_null_def js_simps)
  have c: "parse grammar_action returns_null 2 (js ''a'') None =
     Some (Inl (SyntaxError (js ''Expected end of input but end of input found.'') 1 1))"
    unfolding two parse_def s sum.case call
    by (simp add: initial_state_def computeErrorPosition_def
        buildErrorMessage_def buildExpected_def js_simps)
  show ?thesis by (intro conjI a b c)
qed


text \<open>
  C7. The generated \<open>computeErrorPosition\<close> does not compute the line that the claim
  describes when a line separator (or paragraph separator) is followed by a line
  feed: it counts the two as one line break. For the grammar \<open>start = . . "x"\<close> and
  the input of the two characters U+2028 and line feed, the failure is at offset 2,
  the generated parser reports line 2, and the line of the specification is 3.
\<close>

theorem computeErrorPosition_line_separator:
  "computeErrorPosition [0x2028, 0x0A] (initial_state\<lparr>rightmostMatchFailuresPos := 2\<rparr>) =
     \<lparr>line = 2, column = 1\<rparr> \<and>
   lineColumn_spec [0x2028, 0x0A] 2 = \<lparr>line = 3, column = 1\<rparr> \<and>
   parse grammar_any_any_x returns_null 2 [0x2028, 0x0A] None =
     Some (Inl (SyntaxError (js ''Expected \"x\" but end of input found.'') 2 1))"
proof -
  have upt2: "[0 ..< 2] = [0, Suc 0]" by (simp add: upt_rec)
  have a: "computeErrorPosition [0x2028, 0x0A] (initial_state\<lparr>rightmostMatchFailuresPos := 2\<rparr>) =
     \<lparr>line = 2, column = 1\<rparr>"
    by (simp add: computeErrorPosition_def upt2 charAt_def)
  have b: "lineColumn_spec [0x2028, 0x0A] 2 = \<lparr>line = 3, column = 1\<rparr>"
    by (simp add: lineColumn_spec_def upt2 charAt_def)
  have two: "2 = Suc (Suc 0)" by simp
  have s: "startFunction grammar_any_any_x None = Inr rule_any_any_x"
    by (simp add: startFunction_def grammar_any_any_x_def parseFunction_def rule_any_any_x_def)
  have call: "parse_rule (exec (rules grammar_any_any_x) returns_null [0x2028, 0x0A] (Suc (Suc 0)))
       rule_any_any_x initial_state =
     Some (Inr (JNull, initial_state\<lparr>pos := 0, rightmostMatchFailuresPos := 2,
       rightmostMatchFailuresExpected := [quote (js ''x'')],
       cache := [cacheKey (js ''start'') 0 \<mapsto> \<lparr>nextPos = 0, result = JNull\<rparr>]\<rparr>))"
    by (simp add: parse_rule_def rule_any_any_x_def initial_state_def ok_def substr_def
        charAt_def reportFailure_def matchFailed_def js_simps)
  have q: "quote (js ''x'') = js ''\"x\"''"
    by (simp add: quote_def replace_char_def replace_where_def js_simps)
  have c: "parse grammar_any_any_x returns_null 2 [0x2028, 0x0A] None =
     Some (Inl (SyntaxError (js ''Expected \"x\" but end of input found.'') 2 1))"
    unfolding two parse_def s sum.case call q
    by (simp add: initial_state_def computeErrorPosition_def upt2 charAt_def
        buildErrorMessage_def buildExpected_def js_simps)
  show ?thesis by (intro conjI a b c)
qed


text \<open>
  C9. The re-indentation of \<open>formatCode\<close> does not take the white space of the first
  line when that line is empty or all white space: the prefix it takes runs on over
  the newline. The part \<open>"\nb"\<close> becomes \<open>"\n\nb"\<close>, where the specification leaves
  it unchanged, and user code that starts with a newline gets blank lines put in. The
  example of the specification, with a first line that starts with two spaces and
  then a letter, holds.
\<close>

theorem indentMultilineParts_blank_first_line:
  "indentMultilinePart (js ''\<newline>b'') = js ''\<newline>\<newline>b'' \<and>
   indentMultilinePart_spec (js ''\<newline>b'') = js ''\<newline>b'' \<and>
   formatCode [js ''a'', js ''${x}''] [js ''x'' \<mapsto> js ''\<newline>b''] =
     Inr (js ''a\<newline>\<newline>\<newline>b'') \<and>
   formatCode [js ''  ${code}''] [js ''code'' \<mapsto> js ''\<newline>  f();\<newline>''] =
     Inr (js ''  \<newline>  \<newline>    f();\<newline>  \<newline>  '') \<and>
   formatCode [js ''a'', js ''${x}''] [js ''x'' \<mapsto> js ''  b\<newline>c''] =
     Inr (js ''a\<newline>  b\<newline>  c'')"
proof -
  have a: "indentMultilinePart (js ''\<newline>b'') = js ''\<newline>\<newline>b''"
    by (simp add: formatCode_eval)
  have b: "indentMultilinePart_spec (js ''\<newline>b'') = js ''\<newline>b''"
    by (simp add: formatCode_eval)
  have c: "formatCode [js ''a'', js ''${x}''] [js ''x'' \<mapsto> js ''\<newline>b''] =
     Inr (js ''a\<newline>\<newline>\<newline>b'')"
    by (simp add: formatCode_eval)
  have d: "formatCode [js ''  ${code}''] [js ''code'' \<mapsto> js ''\<newline>  f();\<newline>''] =
     Inr (js ''  \<newline>  \<newline>    f();\<newline>  \<newline>  '')"
    by (simp add: formatCode_eval)
  have e: "formatCode [js ''a'', js ''${x}''] [js ''x'' \<mapsto> js ''  b\<newline>c''] =
     Inr (js ''a\<newline>  b\<newline>  c'')"
    by (simp add: formatCode_eval)
  show ?thesis by (intro conjI a b c d e)
qed





end
